theory Spec2Isabelle
  imports Main
begin

section \<open>Board model\<close>

text \<open>
  A cell is a number: 0 empty, 1 White man, 2 White king, -1 Black man, -2 Black king.
  A side is 1 (White) or -1 (Black). The board is the array of 8 rows of 8 cells that
  \<open>createInitialState\<close> builds and \<open>cloneBoard\<close> copies.

  A read \<open>board[r][c]\<close> yields a number, or \<open>undefined\<close> when there is no such
  cell: \<open>None\<close> stands for \<open>undefined\<close>. Where the row itself is missing the
  guarded read \<open>board[r]?.[c]\<close> yields \<open>undefined\<close> too, while the plain read raises
  TypeError; on a board of 8 rows no plain read of the engine is outside rows 0..7, except
  for a source or target square that is off the board, which \<open>applyMoveWithRules\<close>
  reports as an error value. The theorems are about boards of 8 rows of 8 cells
  (\<open>wf_board\<close>), which is what every stored state holds.
\<close>

type_synonym board = "int list list"

definition wf_board :: "board \<Rightarrow> bool" where
  "wf_board b = (length b = 8 \<and> list_all (\<lambda>line. length line = 8) b)"

definition cell :: "board \<Rightarrow> int \<Rightarrow> int \<Rightarrow> int option" where
  "cell b r c =
     (if 0 \<le> r \<and> r < int (length b) then
        (let line = b ! nat r in
         if 0 \<le> c \<and> c < int (length line) then Some (line ! nat c) else None)
      else None)"

text \<open>The write \<open>board[r][c] = v\<close>, for a cell that exists.\<close>

definition setCell :: "board \<Rightarrow> int \<Rightarrow> int \<Rightarrow> int \<Rightarrow> board" where
  "setCell b r c v = b[nat r := (b ! nat r)[nat c := v]]"

text \<open>
  \<open>sign\<close> and \<open>isKing\<close> on what a read yields. For \<open>undefined\<close> both comparisons of
  \<open>sign\<close> are false, so it answers -1, and \<open>Math.abs(undefined)\<close> is NaN.
\<close>

fun sign :: "int option \<Rightarrow> int" where
  "sign None = -1"
| "sign (Some piece) = (if piece = 0 then 0 else if piece > 0 then 1 else -1)"

fun isKing :: "int option \<Rightarrow> bool" where
  "isKing None = False"
| "isKing (Some piece) = (\<bar>piece\<bar> = 2)"

definition inBounds :: "int \<Rightarrow> int \<Rightarrow> bool" where
  "inBounds r c = (r \<ge> 0 \<and> r < 8 \<and> c \<ge> 0 \<and> c < 8)"

definition forwardDir :: "int \<Rightarrow> int" where
  "forwardDir side = (if side = 1 then -1 else 1)"

text \<open>A value is truthy (\<open>if (!piece)\<close>, \<open>mid && ...\<close>) when it is a number other than 0.\<close>

fun truthyCell :: "int option \<Rightarrow> bool" where
  "truthyCell None = False"
| "truthyCell (Some piece) = (piece \<noteq> 0)"

record square =
  sq_r :: int
  sq_c :: int

record move =
  m_from :: square
  m_to :: square

record capture =
  c_from :: square
  c_over :: square
  c_to :: square

abbreviation sq :: "int \<Rightarrow> int \<Rightarrow> square" where
  "sq r c \<equiv> \<lparr>sq_r = r, sq_c = c\<rparr>"

abbreviation cellAt :: "board \<Rightarrow> square \<Rightarrow> int option" where
  "cellAt b p \<equiv> cell b (sq_r p) (sq_c p)"

record rules =
  mustCapture :: bool
  skipCapturePenaltyRemoveMoved :: bool
  multiCapture :: string
  flyingKingMove :: bool
  flyingKingCapture :: bool
  menBackwardCapture :: bool

section \<open>Move generators\<close>

definition listManMoves :: "board \<Rightarrow> int \<Rightarrow> int \<Rightarrow> int \<Rightarrow> move list" where
  "listManMoves b r c side =
     (let dr = forwardDir side in
      concat (map (\<lambda>dc.
        let r1 = r + dr; c1 = c + dc in
        if inBounds r1 c1 \<and> cell b r1 c1 = Some 0
        then [\<lparr>m_from = sq r c, m_to = sq r1 c1\<rparr>] else []) [-1, 1]))"

text \<open>
  The body of the two-step jump loops of \<open>listManCaptures\<close> and of the short branch of
  \<open>listKingCaptures\<close>, which are the same text in the source.
\<close>

definition jumpAt :: "board \<Rightarrow> int \<Rightarrow> int \<Rightarrow> int \<Rightarrow> int \<Rightarrow> int \<Rightarrow> capture list" where
  "jumpAt b r c side dr dc =
     (let r1 = r + dr; c1 = c + dc; r2 = r + 2 * dr; c2 = c + 2 * dc in
      if \<not> inBounds r2 c2 then []
      else let mid = cell b r1 c1 in
        if truthyCell mid \<and> sign mid = - side \<and> cell b r2 c2 = Some 0
        then [\<lparr>c_from = sq r c, c_over = sq r1 c1, c_to = sq r2 c2\<rparr>] else [])"

definition listManCaptures :: "board \<Rightarrow> int \<Rightarrow> int \<Rightarrow> int \<Rightarrow> bool \<Rightarrow> capture list" where
  "listManCaptures b r c side allowBackwardCapture =
     (let drs = (if allowBackwardCapture then [-1, 1] else [forwardDir side]) in
      concat (map (\<lambda>dr. concat (map (\<lambda>dc. jumpAt b r c side dr dc) [-1, 1])) drs))"

text \<open>
  The \<open>while\<close> loop of the flying king move along one ray. In the source \<open>dr\<close> and
  \<open>dc\<close> are -1 or +1; the test \<open>dr \<noteq> 0\<close> is there for the recursion to end on every
  argument.
\<close>

function slide :: "board \<Rightarrow> int \<Rightarrow> int \<Rightarrow> int \<Rightarrow> int \<Rightarrow> int \<Rightarrow> int \<Rightarrow> move list" where
  "slide b r c dr dc rr cc =
     (if dr \<noteq> 0 \<and> inBounds rr cc \<and> cell b rr cc = Some 0
      then \<lparr>m_from = sq r c, m_to = sq rr cc\<rparr> # slide b r c dr dc (rr + dr) (cc + dc)
      else [])"
  by pat_completeness auto
termination
  by (relation "measure (\<lambda>(b, r, c, dr, dc, rr, cc). nat (if dr > 0 then 8 - rr else rr + 1))")
     (auto simp: inBounds_def)

declare slide.simps [simp del]

definition listKingMoves :: "board \<Rightarrow> int \<Rightarrow> int \<Rightarrow> bool \<Rightarrow> move list" where
  "listKingMoves b r c flying =
     (if \<not> flying then
        concat (map (\<lambda>dr. concat (map (\<lambda>dc.
          let rr = r + dr; cc = c + dc in
          if inBounds rr cc \<and> cell b rr cc = Some 0
          then [\<lparr>m_from = sq r c, m_to = sq rr cc\<rparr>] else []) [-1, 1])) [-1, 1])
      else
        concat (map (\<lambda>dr. concat (map (\<lambda>dc.
          slide b r c dr dc (r + dr) (c + dc)) [-1, 1])) [-1, 1]))"

text \<open>
  The \<open>while\<close> loop of the flying king capture along one ray; \<open>seenEnemy\<close> is the
  square of the enemy met so far, or \<open>None\<close> for \<open>null\<close>.
\<close>

function scanRay :: "board \<Rightarrow> int \<Rightarrow> int \<Rightarrow> int \<Rightarrow> int \<Rightarrow> int \<Rightarrow> int \<Rightarrow> int \<Rightarrow> square option
    \<Rightarrow> capture list" where
  "scanRay b r c side dr dc rr cc seenEnemy =
     (if dr \<noteq> 0 \<and> inBounds rr cc then
        (let cl = cell b rr cc in
         if cl = Some 0 then
           (case seenEnemy of
              Some e \<Rightarrow> [\<lparr>c_from = sq r c, c_over = e, c_to = sq rr cc\<rparr>]
            | None \<Rightarrow> [])
           @ scanRay b r c side dr dc (rr + dr) (cc + dc) seenEnemy
         else
           (let s = sign cl in
            if s = side then []
            else if s = - side then
              (if seenEnemy \<noteq> None then []
               else scanRay b r c side dr dc (rr + dr) (cc + dc) (Some (sq rr cc)))
            else []))
      else [])"
  by pat_completeness auto
termination
  by (relation "measure (\<lambda>(b, r, c, side, dr, dc, rr, cc, seenEnemy).
        nat (if dr > 0 then 8 - rr else rr + 1))")
     (auto simp: inBounds_def)

declare scanRay.simps [simp del]

definition listKingCaptures :: "board \<Rightarrow> int \<Rightarrow> int \<Rightarrow> int \<Rightarrow> bool \<Rightarrow> capture list" where
  "listKingCaptures b r c side flyingCapture =
     (if \<not> flyingCapture then
        concat (map (\<lambda>dr. concat (map (\<lambda>dc. jumpAt b r c side dr dc) [-1, 1])) [-1, 1])
      else
        concat (map (\<lambda>dr. concat (map (\<lambda>dc.
          scanRay b r c side dr dc (r + dr) (c + dc) None) [-1, 1])) [-1, 1]))"

definition listCapturesForPiece :: "board \<Rightarrow> int \<Rightarrow> int \<Rightarrow> rules \<Rightarrow> capture list" where
  "listCapturesForPiece b r c rl =
     (let piece = cell b r c in
      if \<not> truthyCell piece then []
      else let side = sign piece in
        if isKing piece then listKingCaptures b r c side (flyingKingCapture rl)
        else listManCaptures b r c side (menBackwardCapture rl))"

definition listMovesForPiece :: "board \<Rightarrow> int \<Rightarrow> int \<Rightarrow> rules \<Rightarrow> move list" where
  "listMovesForPiece b r c rl =
     (let piece = cell b r c in
      if \<not> truthyCell piece then []
      else let side = sign piece in
        if isKing piece then listKingMoves b r c (flyingKingMove rl)
        else listManMoves b r c side)"

text \<open>The squares in the order of the nested loops \<open>for r ... for c ...\<close>.\<close>

definition allSquares :: "(int \<times> int) list" where
  "allSquares = concat (map (\<lambda>r. map (\<lambda>c. (r, c)) [0..7]) [0..7])"

definition anyCaptureAvailable :: "board \<Rightarrow> int \<Rightarrow> rules \<Rightarrow> bool" where
  "anyCaptureAvailable b side rl =
     list_ex (\<lambda>(r, c). sign (cell b r c) = side \<and> listCapturesForPiece b r c rl \<noteq> []) allSquares"

section \<open>Game state and move application\<close>

record moveResult =
  lm_from :: square
  lm_to :: square
  captured :: "square option"
  penaltyRemoved :: bool

record state =
  board :: board
  turn :: int
  winner :: int
  lastMove :: "moveResult option"
  rules :: rules

definition initialBoard :: board where
  "initialBoard =
     map (\<lambda>r. map (\<lambda>c.
       if r \<ge> 5 \<and> (r + c) mod 2 = 1 then 1
       else if r < 3 \<and> (r + c) mod 2 = 1 then -1 else 0) [0..7]) [0..7]"

definition createInitialState :: state where
  "createInitialState =
     \<lparr>board = initialBoard, turn = 1, winner = 0, lastMove = None,
      rules = \<lparr>mustCapture = True, skipCapturePenaltyRemoveMoved = True,
        multiCapture = ''optional'', flyingKingMove = True, flyingKingCapture = True,
        menBackwardCapture = False\<rparr>\<rparr>"

datatype error = OffBoard | TypeError

text \<open>
  \<open>placed\<close>: the piece written to the target square, a man turning king on its last row.
\<close>

definition placedPiece :: "int \<Rightarrow> int \<Rightarrow> int" where
  "placedPiece piece tr =
     (let side = sign (Some piece); placed = piece;
          placed = (if \<not> isKing (Some piece) \<and> side = 1 \<and> tr = 0 then 2 else placed);
          placed = (if \<not> isKing (Some piece) \<and> side = -1 \<and> tr = 7 then -2 else placed)
      in placed)"

text \<open>
  \<open>capMatch\<close>: the first recomputed capture of the source square that lands on the target.
\<close>

definition capMatch :: "board \<Rightarrow> rules \<Rightarrow> move \<Rightarrow> capture option" where
  "capMatch b rl mv =
     find (\<lambda>x. sq_r (c_to x) = sq_r (m_to mv) \<and> sq_c (c_to x) = sq_c (m_to mv))
       (listCapturesForPiece b (sq_r (m_from mv)) (sq_c (m_from mv)) rl)"

text \<open>
  The source has no test of the squares: it is called with squares of the board only.
  With a source or target square that is no cell of the board it would raise TypeError
  (missing row) or write outside the row; the model answers \<open>Inl OffBoard\<close> there.
\<close>

definition applyMoveWithRules :: "state \<Rightarrow> move \<Rightarrow> error + state" where
  "applyMoveWithRules st mv =
     (let b = board st; rl = rules st;
          fr = sq_r (m_from mv); fc = sq_c (m_from mv);
          tr = sq_r (m_to mv); tc = sq_c (m_to mv) in
      case cell b fr fc of
        None \<Rightarrow> Inl OffBoard
      | Some piece \<Rightarrow>
          if cell b tr tc = None then Inl OffBoard
          else
            let side = sign (Some piece);
                newBoard = setCell b fr fc 0;
                cm = capMatch b rl mv;
                isCapture = (cm \<noteq> None);
                capturedPos = map_option c_over cm;
                newBoard = (case capturedPos of
                              None \<Rightarrow> newBoard
                            | Some p \<Rightarrow> setCell newBoard (sq_r p) (sq_c p) 0);
                newBoard = setCell newBoard tr tc (placedPiece piece tr);
                captureWasAvailable = anyCaptureAvailable b side rl;
                penalty = (mustCapture rl \<and> skipCapturePenaltyRemoveMoved rl
                           \<and> captureWasAvailable \<and> \<not> isCapture);
                newBoard = (if penalty then setCell newBoard tr tc 0 else newBoard)
            in Inr (st\<lparr>board := newBoard,
                       lastMove := Some \<lparr>lm_from = m_from mv, lm_to = m_to mv,
                                          captured = capturedPos, penaltyRemoved = penalty\<rparr>,
                       turn := - turn st\<rparr>))"

definition countPieces :: "board \<Rightarrow> int \<Rightarrow> nat" where
  "countPieces b side = length (filter (\<lambda>(r, c). sign (cell b r c) = side) allSquares)"

definition hasAnyLegalMove :: "state \<Rightarrow> int \<Rightarrow> bool" where
  "hasAnyLegalMove st side =
     list_ex (\<lambda>(r, c). sign (cell (board st) r c) = side \<and>
        (listCapturesForPiece (board st) r c (rules st) \<noteq> []
         \<or> listMovesForPiece (board st) r c (rules st) \<noteq> [])) allSquares"

definition checkWinner :: "state \<Rightarrow> int" where
  "checkWinner st =
     (let white = countPieces (board st) 1; black = countPieces (board st) (-1) in
      if white = 0 then -1
      else if black = 0 then 1
      else if \<not> hasAnyLegalMove st (turn st) then - turn st
      else 0)"

section \<open>Socket handlers\<close>

text \<open>
  What a client can send. \<open>JInt\<close> is a number with an integer value, \<open>JFrac\<close> any other
  number except NaN (never an integer, always truthy). A property read on \<open>undefined\<close> or
  \<open>null\<close> raises TypeError; on an object it yields the property or \<open>undefined\<close>; the
  other values have no property of the names read here. An object is the list of its
  properties, each name once.
\<close>

datatype jsval =
    JUndefined | JNull | JBool bool | JInt int | JFrac | JNaN | JStr string
  | JObj "(string \<times> jsval) list"

fun truthy :: "jsval \<Rightarrow> bool" where
  "truthy JUndefined = False"
| "truthy JNull = False"
| "truthy (JBool v) = v"
| "truthy (JInt i) = (i \<noteq> 0)"
| "truthy JFrac = True"
| "truthy JNaN = False"
| "truthy (JStr s) = (s \<noteq> [])"
| "truthy (JObj fs) = True"

fun nullish :: "jsval \<Rightarrow> bool" where
  "nullish JUndefined = True"
| "nullish JNull = True"
| "nullish v = False"

fun getProp :: "jsval \<Rightarrow> string \<Rightarrow> jsval" where
  "getProp (JObj fs) name = (case map_of fs name of None \<Rightarrow> JUndefined | Some v \<Rightarrow> v)"
| "getProp v name = JUndefined"

text \<open>\<open>v?.name\<close>\<close>

definition optProp :: "jsval \<Rightarrow> string \<Rightarrow> jsval" where
  "optProp v name = (if nullish v then JUndefined else getProp v name)"

text \<open>\<open>Number.isInteger\<close>, with the integer when it holds.\<close>

fun asInteger :: "jsval \<Rightarrow> int option" where
  "asInteger (JInt i) = Some i"
| "asInteger v = None"

datatype role = RoleWhite | RoleBlack | Spectator

record players =
  white :: "string option"
  black :: "string option"

record room =
  state :: state
  players :: players
  clientMap :: "(string \<times> role) list"

text \<open>
  \<open>rooms\<close> holds the one fixed room or nothing: \<open>None\<close> is the empty map.
  A handler returns the map and the state it emits to the room, if it emits one.
\<close>

definition getRoom :: "room option \<Rightarrow> room" where
  "getRoom rooms =
     (case rooms of
        None \<Rightarrow> \<lparr>state = createInitialState, players = \<lparr>white = None, black = None\<rparr>,
                  clientMap = []\<rparr>
      | Some rm \<Rightarrow> rm)"

definition roleOf :: "room \<Rightarrow> string \<Rightarrow> role" where
  "roleOf rm sid =
     (if white (players rm) = Some sid then RoleWhite
      else if black (players rm) = Some sid then RoleBlack else Spectator)"

definition isTarget :: "int \<Rightarrow> int \<Rightarrow> square \<Rightarrow> bool" where
  "isTarget tr tc p = (sq_r p = tr \<and> sq_c p = tc)"

text \<open>
  The four coordinates \<open>from?.r\<close>, \<open>from?.c\<close>, \<open>to?.r\<close>, \<open>to?.c\<close> when
  \<open>Number.isInteger\<close> holds of every one of them.
\<close>

definition integerCoords :: "jsval \<Rightarrow> jsval \<Rightarrow> (int \<times> int \<times> int \<times> int) option" where
  "integerCoords from_v to_v =
     (case (asInteger (optProp from_v ''r''), asInteger (optProp from_v ''c''),
            asInteger (optProp to_v ''r''), asInteger (optProp to_v ''c'')) of
        (Some fr, Some fc, Some tr, Some tc) \<Rightarrow> Some (fr, fc, tr, tc)
      | _ \<Rightarrow> None)"

definition makeMove :: "room option \<Rightarrow> string \<Rightarrow> jsval \<Rightarrow> jsval
    \<Rightarrow> error + (room option \<times> state option)" where
  "makeMove rooms sid from_v to_v =
     (case rooms of
        None \<Rightarrow> Inr (rooms, None)
      | Some rm \<Rightarrow>
          let role = roleOf rm sid in
          if role = Spectator then Inr (rooms, None)
          else
            let side = (if role = RoleWhite then 1 else -1); st = state rm in
            if winner st \<noteq> 0 then Inr (rooms, None)
            else if turn st \<noteq> side then Inr (rooms, None)
            else
              (case integerCoords from_v to_v of
                 None \<Rightarrow> Inr (rooms, None)
               | Some (fr, fc, tr, tc) \<Rightarrow>
                   if \<not> list_all (\<lambda>v. v \<ge> 0 \<and> v < 8) [fr, fc, tr, tc] then Inr (rooms, None)
                   else
                     let piece = cell (board st) fr fc in
                     if sign piece \<noteq> side then Inr (rooms, None)
                     else if cell (board st) tr tc \<noteq> Some 0 then Inr (rooms, None)
                     else
                       let caps = listCapturesForPiece (board st) fr fc (rules st);
                           moves = listMovesForPiece (board st) fr fc (rules st);
                           isCap = list_ex (\<lambda>x. isTarget tr tc (c_to x)) caps;
                           isMove = list_ex (\<lambda>x. isTarget tr tc (m_to x)) moves in
                       if \<not> isCap \<and> \<not> isMove then Inr (rooms, None)
                       else
                         (case applyMoveWithRules st \<lparr>m_from = sq fr fc, m_to = sq tr tc\<rparr> of
                            Inl e \<Rightarrow> Inl e
                          | Inr st1 \<Rightarrow>
                              let w = checkWinner st1;
                                  st2 = (if w \<noteq> 0 then st1\<lparr>winner := w\<rparr> else st1) in
                              Inr (Some (rm\<lparr>state := st2\<rparr>), Some st2))))"

definition updateRules :: "room option \<Rightarrow> string \<Rightarrow> jsval
    \<Rightarrow> error + (room option \<times> state option)" where
  "updateRules rooms sid rules_v =
     (case rooms of
        None \<Rightarrow> Inr (rooms, None)
      | Some rm \<Rightarrow>
          if roleOf rm sid \<noteq> RoleWhite then Inr (rooms, None)
          else if nullish rules_v then Inl TypeError
          else
            let st = (state rm)\<lparr>rules :=
                  \<lparr>mustCapture = truthy (getProp rules_v ''mustCapture''),
                   skipCapturePenaltyRemoveMoved =
                     truthy (getProp rules_v ''skipCapturePenaltyRemoveMoved''),
                   multiCapture =
                     (if getProp rules_v ''multiCapture'' = JStr ''forced''
                      then ''forced'' else ''optional''),
                   flyingKingMove = truthy (getProp rules_v ''flyingKingMove''),
                   flyingKingCapture = truthy (getProp rules_v ''flyingKingCapture''),
                   menBackwardCapture = truthy (getProp rules_v ''menBackwardCapture'')\<rparr>\<rparr>
            in Inr (Some (rm\<lparr>state := st\<rparr>), Some st))"

definition resetGame :: "room option \<Rightarrow> string \<Rightarrow> room option \<times> state option" where
  "resetGame rooms sid =
     (case rooms of
        None \<Rightarrow> (rooms, None)
      | Some rm \<Rightarrow>
          if roleOf rm sid = Spectator then (rooms, None)
          else (Some (rm\<lparr>state := createInitialState\<rparr>), Some createInitialState))"

text \<open>
  \<open>joinRoom\<close>, for a client id that is a string or absent (\<open>None\<close>); the empty string
  is falsy. \<open>clientMap\<close> is the association list of a \<open>Map\<close>: the first entry of a key
  is its value. The handler answers the socket with the role.
\<close>

definition joinRoom :: "room option \<Rightarrow> string \<Rightarrow> jsval \<Rightarrow> string option
    \<Rightarrow> room option \<times> role" where
  "joinRoom rooms sid seat clientId =
     (let rm = getRoom rooms;
          known = (case clientId of
                     None \<Rightarrow> None
                   | Some cid \<Rightarrow> if cid = [] then None else map_of (clientMap rm) cid)
      in case known of
           Some role \<Rightarrow>
             let pl = players rm;
                 pl = (if role = RoleWhite then pl\<lparr>white := Some sid\<rparr> else pl);
                 pl = (if role = RoleBlack then pl\<lparr>black := Some sid\<rparr> else pl)
             in (Some (rm\<lparr>players := pl\<rparr>), role)
         | None \<Rightarrow>
             let pl = players rm;
                 (pl, role) =
                   (if seat = JStr ''white''
                    then (if white pl = None then (pl\<lparr>white := Some sid\<rparr>, RoleWhite)
                          else (pl, Spectator))
                    else if seat = JStr ''black''
                    then (if black pl = None then (pl\<lparr>black := Some sid\<rparr>, RoleBlack)
                          else (pl, Spectator))
                    else (pl, Spectator));
                 (pl, role) =
                   (if role = Spectator
                    then (if white pl = None then (pl\<lparr>white := Some sid\<rparr>, RoleWhite)
                          else if black pl = None then (pl\<lparr>black := Some sid\<rparr>, RoleBlack)
                          else (pl, role))
                    else (pl, role));
                 cm = (case clientId of
                         None \<Rightarrow> clientMap rm
                       | Some cid \<Rightarrow>
                           if cid \<noteq> [] \<and> (role = RoleWhite \<or> role = RoleBlack)
                           then (cid, role) # clientMap rm else clientMap rm)
             in (Some (rm\<lparr>players := pl, clientMap := cm\<rparr>), role))"

definition disconnect :: "room option \<Rightarrow> string \<Rightarrow> room option" where
  "disconnect rooms sid =
     (case rooms of
        None \<Rightarrow> rooms
      | Some rm \<Rightarrow>
          let pl = players rm;
              pl = (if white pl = Some sid then pl\<lparr>white := None\<rparr> else pl);
              pl = (if black pl = Some sid then pl\<lparr>black := None\<rparr> else pl)
          in Some (rm\<lparr>players := pl\<rparr>))"

text \<open>
  The messages a socket can send, each with the id of the socket, and the room map after
  the handler of a message; a handler that raises stores nothing. \<open>run\<close> handles a
  sequence of messages from the start of the server, when the map is empty.
\<close>

datatype event =
    JoinRoom string jsval "string option"
  | UpdateRules string jsval
  | MakeMove string jsval jsval
  | ResetGame string
  | Disconnect string

fun handle :: "room option \<Rightarrow> event \<Rightarrow> room option" where
  "handle rooms (JoinRoom sid seat clientId) = fst (joinRoom rooms sid seat clientId)"
| "handle rooms (UpdateRules sid rules_v) =
     (case updateRules rooms sid rules_v of Inl e \<Rightarrow> rooms | Inr res \<Rightarrow> fst res)"
| "handle rooms (MakeMove sid from_v to_v) =
     (case makeMove rooms sid from_v to_v of Inl e \<Rightarrow> rooms | Inr res \<Rightarrow> fst res)"
| "handle rooms (ResetGame sid) = fst (resetGame rooms sid)"
| "handle rooms (Disconnect sid) = disconnect rooms sid"

definition run :: "event list \<Rightarrow> room option" where
  "run evs = foldl handle None evs"

section \<open>Properties of squares and submissions\<close>

definition emptyAt :: "board \<Rightarrow> square \<Rightarrow> bool" where
  "emptyAt b p = (cellAt b p = Some 0)"

definition enemyAt :: "board \<Rightarrow> int \<Rightarrow> square \<Rightarrow> bool" where
  "enemyAt b side p = (truthyCell (cellAt b p) \<and> sign (cellAt b p) = - side)"

text \<open>
  The move's target is the landing square of one of the captures recomputed for its source
  square.
\<close>

definition isCaptureMove :: "board \<Rightarrow> rules \<Rightarrow> move \<Rightarrow> bool" where
  "isCaptureMove b rl mv =
     list_ex (\<lambda>x. c_to x = m_to mv)
       (listCapturesForPiece b (sq_r (m_from mv)) (sq_c (m_from mv)) rl)"

text \<open>
  The condition of the penalty rule: both rule flags, a capture available to the moving side
  on the board before the move, and a move that is no capture.
\<close>

definition penaltyDue :: "state \<Rightarrow> move \<Rightarrow> bool" where
  "penaltyDue st mv =
     (mustCapture (rules st) \<and> skipCapturePenaltyRemoveMoved (rules st)
      \<and> anyCaptureAvailable (board st) (sign (cellAt (board st) (m_from mv))) (rules st)
      \<and> \<not> isCaptureMove (board st) (rules st) mv)"

text \<open>
  The checks of \<open>makeMove\<close> between reading the state and calling \<open>applyMoveWithRules\<close>,
  for the side of the submitting player and integer coordinates.
\<close>

definition accepted :: "state \<Rightarrow> int \<Rightarrow> move \<Rightarrow> bool" where
  "accepted st side mv =
     (let b = board st;
          fr = sq_r (m_from mv); fc = sq_c (m_from mv);
          tr = sq_r (m_to mv); tc = sq_c (m_to mv) in
      winner st = 0 \<and> turn st = side
      \<and> inBounds fr fc \<and> inBounds tr tc
      \<and> sign (cell b fr fc) = side
      \<and> cell b tr tc = Some 0
      \<and> (list_ex (\<lambda>x. isTarget tr tc (c_to x)) (listCapturesForPiece b fr fc (rules st))
         \<or> list_ex (\<lambda>x. isTarget tr tc (m_to x)) (listMovesForPiece b fr fc (rules st))))"

definition sideOf :: "role \<Rightarrow> int" where
  "sideOf role = (if role = RoleWhite then 1 else -1)"

text \<open>The move a submission names, when its four coordinates are integers.\<close>

definition submittedMove :: "jsval \<Rightarrow> jsval \<Rightarrow> move option" where
  "submittedMove from_v to_v =
     map_option (\<lambda>(fr, fc, tr, tc). \<lparr>m_from = sq fr fc, m_to = sq tr tc\<rparr>)
       (integerCoords from_v to_v)"

text \<open>A submission that passes every check of \<open>makeMove\<close>.\<close>

definition submissionAccepted :: "room \<Rightarrow> string \<Rightarrow> jsval \<Rightarrow> jsval \<Rightarrow> bool" where
  "submissionAccepted rm sid from_v to_v =
     (roleOf rm sid \<noteq> Spectator \<and>
      (case submittedMove from_v to_v of
         None \<Rightarrow> False
       | Some mv \<Rightarrow> accepted (state rm) (sideOf (roleOf rm sid)) mv))"

text \<open>The last two statements of \<open>makeMove\<close> before it emits: the winner is stored.\<close>

definition storeWinner :: "state \<Rightarrow> state" where
  "storeWinner st1 = (let w = checkWinner st1 in if w \<noteq> 0 then st1\<lparr>winner := w\<rparr> else st1)"

text \<open>
  The squares of the ray from \<open>(rr, cc)\<close> in direction \<open>(dr, dc)\<close>, up to the edge of
  the board (\<open>dr\<close> is -1 or +1, as for \<open>scanRay\<close>).
\<close>

function rayFrom :: "int \<Rightarrow> int \<Rightarrow> int \<Rightarrow> int \<Rightarrow> square list" where
  "rayFrom dr dc rr cc =
     (if dr \<noteq> 0 \<and> inBounds rr cc then sq rr cc # rayFrom dr dc (rr + dr) (cc + dc) else [])"
  by pat_completeness auto
termination
  by (relation "measure (\<lambda>(dr, dc, rr, cc). nat (if dr > 0 then 8 - rr else rr + 1))")
     (auto simp: inBounds_def)

declare rayFrom.simps [simp del]

text \<open>
  The flying captures of one ray in the words of the rule: skip the empty squares next to
  the king; the first piece met must be an enemy; the landing squares are the empty squares
  that follow it, up to the next piece or the edge of the board.
\<close>

definition rayCapturesSpec :: "board \<Rightarrow> int \<Rightarrow> int \<Rightarrow> int \<Rightarrow> int \<Rightarrow> int \<Rightarrow> capture list" where
  "rayCapturesSpec b r c side dr dc =
     (case dropWhile (emptyAt b) (rayFrom dr dc (r + dr) (c + dc)) of
        [] \<Rightarrow> []
      | e # beyond \<Rightarrow>
          if enemyAt b side e
          then map (\<lambda>p. \<lparr>c_from = sq r c, c_over = e, c_to = p\<rparr>)
                 (takeWhile (emptyAt b) beyond)
          else [])"

text \<open>\<open>multiCapture\<close> is one of its two values.\<close>

definition rulesOK :: "rules \<Rightarrow> bool" where
  "rulesOK rl = (multiCapture rl = ''optional'' \<or> multiCapture rl = ''forced'')"

text \<open>What every stored state satisfies: an 8 by 8 board and well-formed rules.\<close>

definition stateOK :: "state \<Rightarrow> bool" where
  "stateOK st = (wf_board (board st) \<and> rulesOK (rules st))"

section \<open>Sample positions\<close>

definition defaultRules :: rules where
  "defaultRules = rules createInitialState"

text \<open>
  A White man on (3,4) with Black men on (2,3), ahead of it, and on (4,5), behind it.
\<close>

definition manBoard :: board where
  "manBoard =
     [[0, 0, 0, 0, 0, 0, 0, 0],
      [0, 0, 0, 0, 0, 0, 0, 0],
      [0, 0, 0, -1, 0, 0, 0, 0],
      [0, 0, 0, 0, 1, 0, 0, 0],
      [0, 0, 0, 0, 0, -1, 0, 0],
      [0, 0, 0, 0, 0, 0, 0, 0],
      [0, 0, 0, 0, 0, 0, 0, 0],
      [0, 0, 0, 0, 0, 0, 0, 0]]"

text \<open>
  A White king on (7,0); on its ray a Black man on (6,1), the empty (5,2), a Black man on
  (4,3), and three empty squares up to the edge.
\<close>

definition rayBoard :: board where
  "rayBoard =
     [[0, 0, 0, 0, 0, 0, 0, 0],
      [0, 0, 0, 0, 0, 0, 0, 0],
      [0, 0, 0, 0, 0, 0, 0, 0],
      [0, 0, 0, 0, 0, 0, 0, 0],
      [0, 0, 0, -1, 0, 0, 0, 0],
      [0, 0, 0, 0, 0, 0, 0, 0],
      [0, -1, 0, 0, 0, 0, 0, 0],
      [2, 0, 0, 0, 0, 0, 0, 0]]"

text \<open>
  White to move on \<open>manBoard\<close> under the initial rules: the man on (3,4) can capture
  over (2,3); \<open>skipMove\<close> steps to (2,5) instead, \<open>takeMove\<close> captures.
\<close>

definition manState :: state where
  "manState = createInitialState\<lparr>board := manBoard\<rparr>"

definition skipMove :: move where
  "skipMove = \<lparr>m_from = sq 3 4, m_to = sq 2 5\<rparr>"

definition takeMove :: move where
  "takeMove = \<lparr>m_from = sq 3 4, m_to = sq 1 2\<rparr>"



text \<open>A room with both seats taken, White to move on \<open>manBoard\<close>.\<close>

definition demoRoom :: room where
  "demoRoom = \<lparr>state = manState, players = \<lparr>white = Some ''w'', black = Some ''b''\<rparr>,
      clientMap = []\<rparr>"

definition jsSquare :: "jsval \<Rightarrow> jsval \<Rightarrow> jsval" where
  "jsSquare r c = JObj [(''r'', r), (''c'', c)]"




text \<open>A White king alone on the board, Black to move.\<close>

definition loneKingBoard :: board where
  "loneKingBoard =
     [[0, 0, 0, 0, 0, 0, 0, 0],
      [0, 0, 0, 0, 0, 0, 0, 0],
      [0, 0, 0, 0, 0, 0, 0, 0],
      [0, 0, 0, 0, 0, 0, 0, 0],
      [0, 0, 0, 0, 0, 0, 0, 0],
      [0, 0, 0, 0, 0, 0, 0, 0],
      [0, 0, 0, 0, 0, 0, 0, 0],
      [2, 0, 0, 0, 0, 0, 0, 0]]"

definition loneKingState :: state where
  "loneKingState = createInitialState\<lparr>board := loneKingBoard, turn := - 1\<rparr>"

text \<open>A White king on (7,0), a Black man on (6,1) and nothing else on the ray.\<close>

definition openRayBoard :: board where
  "openRayBoard =
     [[0, 0, 0, 0, 0, 0, 0, 0],
      [0, 0, 0, 0, 0, 0, 0, 0],
      [0, 0, 0, 0, 0, 0, 0, 0],
      [0, 0, 0, 0, 0, 0, 0, 0],
      [0, 0, 0, 0, 0, 0, 0, 0],
      [0, 0, 0, 0, 0, 0, 0, 0],
      [0, -1, 0, 0, 0, 0, 0, 0],
      [2, 0, 0, 0, 0, 0, 0, 0]]"

text \<open>
  A first socket takes the White seat and sends rules with a number for \<open>mustCapture\<close>,
  an unknown \<open>multiCapture\<close> and nothing else.
\<close>

definition demoPayload :: jsval where
  "demoPayload = JObj [(''mustCapture'', JInt 1), (''multiCapture'', JStr ''sometimes'')]"

definition demoEvents :: "event list" where
  "demoEvents = [JoinRoom ''w'' (JStr ''white'') None, UpdateRules ''w'' demoPayload]"

definition joinedRoom :: room where
  "joinedRoom = \<lparr>state = createInitialState, players = \<lparr>white = Some ''w'', black = None\<rparr>,
      clientMap = []\<rparr>"

definition updatedRoom :: room where
  "updatedRoom = joinedRoom\<lparr>state := createInitialState\<lparr>rules :=
      \<lparr>mustCapture = True, skipCapturePenaltyRemoveMoved = False,
       multiCapture = ''optional'', flyingKingMove = False, flyingKingCapture = False,
       menBackwardCapture = False\<rparr>\<rparr>\<rparr>"

section \<open>Reading and writing cells\<close>

lemma cell_Some_iff:
  "cell b r c = Some v \<longleftrightarrow>
     0 \<le> r \<and> r < int (length b) \<and> 0 \<le> c \<and> c < int (length (b ! nat r)) \<and> b ! nat r ! nat c = v"
  by (auto simp: cell_def Let_def)

lemma wf_board_row: "wf_board b \<Longrightarrow> 0 \<le> r \<Longrightarrow> r < 8 \<Longrightarrow> length (b ! nat r) = 8"
  by (simp add: wf_board_def list_all_length)

lemma wf_cell: "wf_board b \<Longrightarrow> inBounds r c \<Longrightarrow> \<exists>v. cell b r c = Some v"
  using wf_board_row[of b r] by (auto simp: cell_def Let_def inBounds_def wf_board_def)

lemma cell_inBounds: "wf_board b \<Longrightarrow> cell b r c = Some v \<Longrightarrow> inBounds r c"
  using wf_board_row[of b r] by (auto simp: cell_def Let_def inBounds_def wf_board_def split: if_splits)

lemma cell_not_None:
  "cell b r c \<noteq> None \<longleftrightarrow>
     0 \<le> r \<and> r < int (length b) \<and> 0 \<le> c \<and> c < int (length (b ! nat r))"
  by (auto simp add: cell_def Let_def)

lemma cell_setCell_same:
  assumes "cell b r c \<noteq> None"
  shows "cell (setCell b r c v) r c = Some v"
proof -
  from assms[unfolded cell_not_None]
  have rc: "0 \<le> r" "r < int (length b)" "0 \<le> c" "c < int (length (b ! nat r))"
    by simp_all
  then have n: "nat r < length b" "nat c < length (b ! nat r)"
    by (simp_all add: nat_less_iff)
  with rc show ?thesis by (simp add: cell_def setCell_def Let_def)
qed

lemma cell_setCell_other:
  assumes "cell b r c \<noteq> None" and "r' \<noteq> r \<or> c' \<noteq> c"
  shows "cell (setCell b r c v) r' c' = cell b r' c'"
proof -
  from assms(1)[unfolded cell_not_None]
  have rc: "0 \<le> r" "r < int (length b)" "0 \<le> c" "c < int (length (b ! nat r))"
    by simp_all
  then have n: "nat r < length b" "nat c < length (b ! nat r)"
    by (simp_all add: nat_less_iff)
  show ?thesis
  proof (cases "0 \<le> r' \<and> r' < int (length b)")
    case False
    then show ?thesis by (auto simp add: cell_def setCell_def)
  next
    case True
    show ?thesis
    proof (cases "r' = r")
      case False
      with True rc have "nat r' \<noteq> nat r" by (simp add: eq_nat_nat_iff)
      with True show ?thesis by (simp add: cell_def setCell_def Let_def)
    next
      case same: True
      with assms(2) have "c' \<noteq> c" by simp
      with rc have "0 \<le> c' \<Longrightarrow> nat c' \<noteq> nat c" by (simp add: eq_nat_nat_iff)
      with same rc n show ?thesis
        by (auto simp add: cell_def setCell_def Let_def)
    qed
  qed
qed

lemma cell_setCell:
  "cell b r c \<noteq> None \<Longrightarrow>
   cell (setCell b r c v) r' c' = (if r' = r \<and> c' = c then Some v else cell b r' c')"
  using cell_setCell_same[of b r c v] cell_setCell_other[of b r c r' c' v] by auto

lemma wf_setCell: "wf_board b \<Longrightarrow> wf_board (setCell b r c v)"
proof -
  assume wf: "wf_board b"
  have "length ((setCell b r c v) ! n) = 8" if "n < 8" for n
    using wf that by (cases "n = nat r") (simp_all add: wf_board_def setCell_def list_all_length)
  with wf show ?thesis by (simp add: wf_board_def setCell_def list_all_length)
qed

lemma scanRay_stop: "\<not> (dr \<noteq> 0 \<and> inBounds rr cc) \<Longrightarrow> scanRay b r c side dr dc rr cc seenEnemy = []"
  by (subst scanRay.simps) auto

lemma scanRay_empty:
  "dr \<noteq> 0 \<Longrightarrow> inBounds rr cc \<Longrightarrow> cell b rr cc = Some 0 \<Longrightarrow>
   scanRay b r c side dr dc rr cc seenEnemy =
     (case seenEnemy of Some e \<Rightarrow> [\<lparr>c_from = sq r c, c_over = e, c_to = sq rr cc\<rparr>] | None \<Rightarrow> [])
     @ scanRay b r c side dr dc (rr + dr) (cc + dc) seenEnemy"
  by (subst scanRay.simps) simp

lemma scanRay_piece:
  "dr \<noteq> 0 \<Longrightarrow> inBounds rr cc \<Longrightarrow> cell b rr cc \<noteq> Some 0 \<Longrightarrow>
   scanRay b r c side dr dc rr cc seenEnemy =
     (if sign (cell b rr cc) = - side \<and> sign (cell b rr cc) \<noteq> side \<and> seenEnemy = None
      then scanRay b r c side dr dc (rr + dr) (cc + dc) (Some (sq rr cc)) else [])"
  by (subst scanRay.simps) (simp add: Let_def)

lemma jumpAt_sound:
  "x \<in> set (jumpAt b r c side dr dc) \<Longrightarrow>
     c_from x = sq r c \<and> emptyAt b (c_to x) \<and> enemyAt b side (c_over x)"
  by (auto simp: jumpAt_def Let_def emptyAt_def enemyAt_def split: if_splits)

lemma scanRay_sound:
  "wf_board b \<Longrightarrow> (\<forall>e. seenEnemy = Some e \<longrightarrow> enemyAt b side e) \<Longrightarrow>
   x \<in> set (scanRay b r c side dr dc rr cc seenEnemy) \<Longrightarrow>
     c_from x = sq r c \<and> emptyAt b (c_to x) \<and> enemyAt b side (c_over x)"
proof (induction b r c side dr dc rr cc seenEnemy rule: scanRay.induct)
  case (1 b r c side dr dc rr cc seenEnemy)
  show ?case
  proof (cases "dr \<noteq> 0 \<and> inBounds rr cc")
    case False
    with "1.prems" show ?thesis by (simp add: scanRay_stop)
  next
    case ib: True
    then obtain v where v: "cell b rr cc = Some v" using wf_cell "1.prems"(1) by blast
    show ?thesis
    proof (cases "v = 0")
      case True
      with ib v "1.prems" "1.IH"(1)[of "Some 0"] show ?thesis
        by (auto simp: emptyAt_def scanRay_empty split: option.splits)
    next
      case False
      with ib v "1.prems" "1.IH"(2)[of "Some v" "sign (Some v)"] show ?thesis
        by (auto simp: enemyAt_def scanRay_piece split: option.splits if_splits)
    qed
  qed
qed

lemma listKingCaptures_sound:
  "wf_board b \<Longrightarrow> x \<in> set (listKingCaptures b r c side fly) \<Longrightarrow>
     c_from x = sq r c \<and> emptyAt b (c_to x) \<and> enemyAt b side (c_over x)"
  by (auto simp: listKingCaptures_def split: if_splits dest: jumpAt_sound scanRay_sound)

lemma listManCaptures_sound:
  "x \<in> set (listManCaptures b r c side back) \<Longrightarrow>
     c_from x = sq r c \<and> emptyAt b (c_to x) \<and> enemyAt b side (c_over x)"
  by (auto simp: listManCaptures_def split: if_splits dest: jumpAt_sound)

lemma listCapturesForPiece_sound:
  "wf_board b \<Longrightarrow> x \<in> set (listCapturesForPiece b r c rl) \<Longrightarrow>
     c_from x = sq r c \<and> emptyAt b (c_to x) \<and> enemyAt b (sign (cell b r c)) (c_over x)
     \<and> truthyCell (cell b r c)"
  by (auto simp: listCapturesForPiece_def Let_def split: if_splits
      dest: listKingCaptures_sound listManCaptures_sound)

section \<open>The applied move, cell by cell\<close>

lemma sq_eq_iff: "(p = q) \<longleftrightarrow> sq_r p = sq_r q \<and> sq_c p = sq_c q" for p q :: square
  by (auto intro: square.equality)

lemma capMatch_Some:
  "capMatch b rl mv = Some x \<Longrightarrow>
     x \<in> set (listCapturesForPiece b (sq_r (m_from mv)) (sq_c (m_from mv)) rl) \<and> c_to x = m_to mv"
  by (auto simp: capMatch_def find_Some_iff)

lemma capMatch_None_iff: "capMatch b rl mv = None \<longleftrightarrow> \<not> isCaptureMove b rl mv"
  by (auto simp add: capMatch_def isCaptureMove_def find_None_iff list_ex_iff sq_eq_iff)

lemma capture_squares:
  assumes "wf_board b" and "x \<in> set (listCapturesForPiece b r c rl)"
  shows "c_from x = sq r c" and "cellAt b (c_to x) = Some 0" and "cellAt b (c_over x) \<noteq> None"
    and "c_over x \<noteq> c_to x" and "c_over x \<noteq> c_from x" and "c_to x \<noteq> c_from x"
    and "cellAt b (c_over x) \<noteq> Some 0"
proof -
  from listCapturesForPiece_sound[OF assms]
  have f: "c_from x = sq r c" and e: "emptyAt b (c_to x)"
    and en: "enemyAt b (sign (cell b r c)) (c_over x)" and t: "truthyCell (cell b r c)" by simp_all
  show "c_from x = sq r c" by fact
  from e show e': "cellAt b (c_to x) = Some 0" by (simp add: emptyAt_def)
  from en show o: "cellAt b (c_over x) \<noteq> None"
    by (cases "cellAt b (c_over x)") (simp_all add: enemyAt_def)
  from en show o0: "cellAt b (c_over x) \<noteq> Some 0" by (auto simp: enemyAt_def)
  from o0 e' show "c_over x \<noteq> c_to x" by auto
  from t e' f show "c_to x \<noteq> c_from x" by auto
  from t en f show "c_over x \<noteq> c_from x"
    by (cases "cell b r c") (auto simp: enemyAt_def split: if_splits)
qed

lemma applyMove_unfold:
  assumes "cellAt (board st) (m_from mv) = Some piece" and "cellAt (board st) (m_to mv) \<noteq> None"
  shows "applyMoveWithRules st mv =
    Inr (st\<lparr>board :=
          (let nb = setCell (board st) (sq_r (m_from mv)) (sq_c (m_from mv)) 0;
               nb = (case capMatch (board st) (rules st) mv of
                       None \<Rightarrow> nb | Some x \<Rightarrow> setCell nb (sq_r (c_over x)) (sq_c (c_over x)) 0);
               nb = setCell nb (sq_r (m_to mv)) (sq_c (m_to mv)) (placedPiece piece (sq_r (m_to mv)))
           in if penaltyDue st mv then setCell nb (sq_r (m_to mv)) (sq_c (m_to mv)) 0 else nb),
        lastMove := Some \<lparr>lm_from = m_from mv, lm_to = m_to mv,
                           captured = map_option c_over (capMatch (board st) (rules st) mv),
                           penaltyRemoved = penaltyDue st mv\<rparr>,
        turn := - turn st\<rparr>)"
  using assms
  by (cases "capMatch (board st) (rules st) mv")
     (simp_all add: applyMoveWithRules_def Let_def penaltyDue_def capMatch_None_iff[symmetric])

lemma onBoard_setCell:
  "cell b r c \<noteq> None \<Longrightarrow> cell b r' c' \<noteq> None \<Longrightarrow> cell (setCell b r c v) r' c' \<noteq> None"
  by (simp add: cell_setCell)

lemma applyMove_cells:
  assumes wf: "wf_board (board st)"
    and p: "cellAt (board st) (m_from mv) = Some piece"
    and t: "cellAt (board st) (m_to mv) \<noteq> None"
    and ap: "applyMoveWithRules st mv = Inr st'"
  shows "cell (board st') r c =
     (if sq r c = m_to mv
      then Some (if penaltyDue st mv then 0 else placedPiece piece (sq_r (m_to mv)))
      else if Some (sq r c) = map_option c_over (capMatch (board st) (rules st) mv) then Some 0
      else if sq r c = m_from mv then Some 0
      else cell (board st) r c)"
proof -
  let ?b = "board st"
  let ?b1 = "setCell ?b (sq_r (m_from mv)) (sq_c (m_from mv)) 0"
  from p have f: "cellAt ?b (m_from mv) \<noteq> None" by simp
  have t1: "cellAt ?b1 (m_to mv) \<noteq> None" using f t by (rule onBoard_setCell)
  show ?thesis
  proof (cases "capMatch ?b (rules st) mv")
    case None
    with ap applyMove_unfold[OF p t] f t t1 show ?thesis
      by (auto simp add: Let_def cell_setCell onBoard_setCell sq_eq_iff)
  next
    case (Some x)
    let ?b2 = "setCell ?b1 (sq_r (c_over x)) (sq_c (c_over x)) 0"
    from capMatch_Some[OF Some] capture_squares(3)[OF wf]
    have o: "cellAt ?b (c_over x) \<noteq> None" by blast
    have o1: "cellAt ?b1 (c_over x) \<noteq> None" using f o by (rule onBoard_setCell)
    have t2: "cellAt ?b2 (m_to mv) \<noteq> None" using o1 t1 by (rule onBoard_setCell)
    from Some ap applyMove_unfold[OF p t] f t t1 o o1 t2 show ?thesis
      by (auto simp add: Let_def cell_setCell onBoard_setCell sq_eq_iff)
  qed
qed

lemma applyMove_wf:
  assumes "wf_board (board st)" and "applyMoveWithRules st mv = Inr st'"
  shows "wf_board (board st')"
  using assms
  by (auto simp add: applyMoveWithRules_def Let_def wf_setCell split: option.splits if_splits)

lemma sq_surj: "sq (sq_r p) (sq_c p) = p"
  by (cases p) simp

lemma applyMove_cellAt:
  assumes "wf_board (board st)"
    and "cellAt (board st) (m_from mv) = Some piece"
    and "cellAt (board st) (m_to mv) \<noteq> None"
    and "applyMoveWithRules st mv = Inr st'"
  shows "cellAt (board st') q =
     (if q = m_to mv
      then Some (if penaltyDue st mv then 0 else placedPiece piece (sq_r (m_to mv)))
      else if Some q = map_option c_over (capMatch (board st) (rules st) mv) then Some 0
      else if q = m_from mv then Some 0
      else cellAt (board st) q)"
  using applyMove_cells[OF assms, of "sq_r q" "sq_c q"] by (simp only: sq_surj)

section \<open>Accepted and rejected submissions\<close>

lemma listCaptures_nonempty_truthy:
  "listCapturesForPiece b r c rl \<noteq> [] \<Longrightarrow> truthyCell (cell b r c)"
  by (auto simp: listCapturesForPiece_def Let_def split: if_splits)

lemma listMoves_nonempty_truthy:
  "listMovesForPiece b r c rl \<noteq> [] \<Longrightarrow> truthyCell (cell b r c)"
  by (auto simp: listMovesForPiece_def Let_def split: if_splits)

lemma accepted_facts:
  assumes "accepted st side mv"
  shows "winner st = 0" and "turn st = side"
    and "inBounds (sq_r (m_from mv)) (sq_c (m_from mv))"
    and "inBounds (sq_r (m_to mv)) (sq_c (m_to mv))"
    and "sign (cellAt (board st) (m_from mv)) = side"
    and "cellAt (board st) (m_to mv) = Some 0"
    and "truthyCell (cellAt (board st) (m_from mv))"
    and "m_from mv \<noteq> m_to mv"
proof -
  from assms show a: "winner st = 0" "turn st = side"
    "inBounds (sq_r (m_from mv)) (sq_c (m_from mv))"
    "inBounds (sq_r (m_to mv)) (sq_c (m_to mv))"
    "sign (cellAt (board st) (m_from mv)) = side"
    "cellAt (board st) (m_to mv) = Some 0"
    by (simp_all add: accepted_def Let_def)
  from assms have "listCapturesForPiece (board st) (sq_r (m_from mv)) (sq_c (m_from mv)) (rules st) \<noteq> []
      \<or> listMovesForPiece (board st) (sq_r (m_from mv)) (sq_c (m_from mv)) (rules st) \<noteq> []"
    by (auto simp add: accepted_def Let_def list_ex_iff)
  then show t: "truthyCell (cellAt (board st) (m_from mv))"
    using listCaptures_nonempty_truthy listMoves_nonempty_truthy by blast
  with a(6) show "m_from mv \<noteq> m_to mv" by auto
qed

lemma accepted_piece:
  assumes "accepted st side mv"
  obtains piece where "cellAt (board st) (m_from mv) = Some piece" and "piece \<noteq> 0"
    and "sign (Some piece) = side"
  using accepted_facts(5,7)[OF assms]
  by (cases "cellAt (board st) (m_from mv)") auto

lemma makeMove_reject:
  "\<not> submissionAccepted rm sid from_v to_v \<Longrightarrow>
   makeMove (Some rm) sid from_v to_v = Inr (Some rm, None)"
  by (cases "roleOf rm sid"; cases "integerCoords from_v to_v")
     (auto simp add: makeMove_def submissionAccepted_def submittedMove_def accepted_def
      sideOf_def Let_def inBounds_def)

lemma makeMove_accept:
  assumes "submissionAccepted rm sid from_v to_v"
    and "submittedMove from_v to_v = Some mv"
    and "applyMoveWithRules (state rm) mv = Inr st1"
  shows "makeMove (Some rm) sid from_v to_v =
     Inr (Some (rm\<lparr>state := storeWinner st1\<rparr>), Some (storeWinner st1))"
  using assms
  by (cases "roleOf rm sid"; cases "integerCoords from_v to_v")
     (auto simp add: makeMove_def submissionAccepted_def submittedMove_def accepted_def
      sideOf_def Let_def inBounds_def storeWinner_def)

lemma placedPiece_nonzero: "piece \<noteq> 0 \<Longrightarrow> placedPiece piece tr \<noteq> 0"
  by (simp add: placedPiece_def Let_def)

lemma accepted_applies:
  assumes wf: "wf_board (board st)" and acc: "accepted st side mv"
  obtains st' piece where "applyMoveWithRules st mv = Inr st'"
    and "cellAt (board st) (m_from mv) = Some piece" and "piece \<noteq> 0"
    and "sign (Some piece) = side"
    and "lastMove st' = Some \<lparr>lm_from = m_from mv, lm_to = m_to mv,
           captured = map_option c_over (capMatch (board st) (rules st) mv),
           penaltyRemoved = penaltyDue st mv\<rparr>"
    and "turn st' = - turn st" and "rules st' = rules st" and "winner st' = winner st"
proof -
  from acc obtain piece where p: "cellAt (board st) (m_from mv) = Some piece"
    and nz: "piece \<noteq> 0" and sg: "sign (Some piece) = side" by (rule accepted_piece)
  from accepted_facts(6)[OF acc] have t: "cellAt (board st) (m_to mv) \<noteq> None" by simp
  note u = applyMove_unfold[OF p t]
  show thesis
    by (rule that[OF u p nz sg]) simp_all
qed


lemma storeWinner_turn: "turn (storeWinner st) = turn st"
  by (simp add: storeWinner_def Let_def)

lemma submissionAccepted_move:
  assumes "submissionAccepted rm sid from_v to_v"
  obtains mv where "submittedMove from_v to_v = Some mv"
    and "accepted (state rm) (sideOf (roleOf rm sid)) mv"
  using assms by (auto simp add: submissionAccepted_def split: option.splits)

section \<open>The loops over the 64 squares\<close>

lemma set_allSquares: "set allSquares = {0..7} \<times> {0..7}"
  by (auto simp add: allSquares_def)

lemma allSquares_iff: "(r, c) \<in> set allSquares \<longleftrightarrow> inBounds r c"
  by (auto simp add: set_allSquares inBounds_def)

lemma bex_allSquares: "(\<exists>x \<in> set allSquares. P x) \<longleftrightarrow> (\<exists>r c. inBounds r c \<and> P (r, c))"
proof
  assume "\<exists>x \<in> set allSquares. P x"
  then obtain r c where "(r, c) \<in> set allSquares" and "P (r, c)" by auto
  then show "\<exists>r c. inBounds r c \<and> P (r, c)" using allSquares_iff by blast
next
  assume "\<exists>r c. inBounds r c \<and> P (r, c)"
  then show "\<exists>x \<in> set allSquares. P x" using allSquares_iff by blast
qed

lemma countPieces_zero_iff:
  "countPieces b side = 0 \<longleftrightarrow> \<not> (\<exists>r c. inBounds r c \<and> sign (cell b r c) = side)"
proof -
  have "countPieces b side = 0 \<longleftrightarrow>
      \<not> (\<exists>x \<in> set allSquares. case x of (r, c) \<Rightarrow> sign (cell b r c) = side)"
    by (simp add: countPieces_def filter_empty_conv)
  then show ?thesis by (simp add: bex_allSquares)
qed

lemma hasAnyLegalMove_iff:
  "hasAnyLegalMove st side \<longleftrightarrow>
     (\<exists>r c. inBounds r c \<and> sign (cell (board st) r c) = side
        \<and> (listCapturesForPiece (board st) r c (rules st) \<noteq> []
           \<or> listMovesForPiece (board st) r c (rules st) \<noteq> []))"
  by (simp add: hasAnyLegalMove_def list_ex_iff bex_allSquares)

lemma anyCaptureAvailable_iff:
  "anyCaptureAvailable b side rl \<longleftrightarrow>
     (\<exists>r c. inBounds r c \<and> sign (cell b r c) = side \<and> listCapturesForPiece b r c rl \<noteq> [])"
  by (simp add: anyCaptureAvailable_def list_ex_iff bex_allSquares)

section \<open>The flying capture scan along one ray\<close>

lemma rayFrom_stop: "\<not> (dr \<noteq> 0 \<and> inBounds rr cc) \<Longrightarrow> rayFrom dr dc rr cc = []"
  by (subst rayFrom.simps) auto

lemma rayFrom_step:
  "dr \<noteq> 0 \<Longrightarrow> inBounds rr cc \<Longrightarrow>
   rayFrom dr dc rr cc = sq rr cc # rayFrom dr dc (rr + dr) (cc + dc)"
  by (subst rayFrom.simps) simp

lemma scanRay_seen:
  "wf_board b \<Longrightarrow>
   scanRay b r c side dr dc rr cc (Some e) =
     map (\<lambda>p. \<lparr>c_from = sq r c, c_over = e, c_to = p\<rparr>)
       (takeWhile (emptyAt b) (rayFrom dr dc rr cc))"
proof (induction dr dc rr cc rule: rayFrom.induct)
  case (1 dr dc rr cc)
  show ?case
  proof (cases "dr \<noteq> 0 \<and> inBounds rr cc")
    case False
    then show ?thesis by (simp add: scanRay_stop rayFrom_stop)
  next
    case True
    show ?thesis
    proof (cases "cell b rr cc = Some 0")
      case e: True
      with True "1.IH" "1.prems" show ?thesis
        by (simp add: scanRay_empty rayFrom_step emptyAt_def)
    next
      case False
      with True show ?thesis
        by (simp add: scanRay_piece rayFrom_step emptyAt_def)
    qed
  qed
qed

lemma scanRay_unseen:
  "wf_board b \<Longrightarrow>
   scanRay b r c side dr dc rr cc None =
     (case dropWhile (emptyAt b) (rayFrom dr dc rr cc) of
        [] \<Rightarrow> []
      | e # beyond \<Rightarrow>
          if enemyAt b side e
          then map (\<lambda>p. \<lparr>c_from = sq r c, c_over = e, c_to = p\<rparr>)
                 (takeWhile (emptyAt b) beyond)
          else [])"
proof (induction dr dc rr cc rule: rayFrom.induct)
  case (1 dr dc rr cc)
  show ?case
  proof (cases "dr \<noteq> 0 \<and> inBounds rr cc")
    case False
    then show ?thesis by (simp add: scanRay_stop rayFrom_stop)
  next
    case True
    show ?thesis
    proof (cases "cell b rr cc = Some 0")
      case e: True
      with True "1.IH" "1.prems" show ?thesis
        by (simp add: scanRay_empty rayFrom_step emptyAt_def)
    next
      case False
      from True "1.prems" obtain v where v: "cell b rr cc = Some v" using wf_cell by blast
      with False have "v \<noteq> 0" by simp
      with v have en: "enemyAt b side (sq rr cc) \<longleftrightarrow>
          sign (cell b rr cc) = - side \<and> sign (cell b rr cc) \<noteq> side"
        by (auto simp add: enemyAt_def split: if_splits)
      from False True en "1.prems" show ?thesis
        by (simp add: scanRay_piece rayFrom_step emptyAt_def scanRay_seen)
    qed
  qed
qed

lemma scanRay_spec:
  "wf_board b \<Longrightarrow>
   scanRay b r c side dr dc (r + dr) (c + dc) None = rayCapturesSpec b r c side dr dc"
  by (simp add: scanRay_unseen rayCapturesSpec_def)

lemma rayFrom_side:
  "p \<in> set (rayFrom dr dc rr cc) \<Longrightarrow>
     (dr > 0 \<longrightarrow> rr \<le> sq_r p) \<and> (dr < 0 \<longrightarrow> sq_r p \<le> rr)
     \<and> (dc > 0 \<longrightarrow> cc \<le> sq_c p) \<and> (dc < 0 \<longrightarrow> sq_c p \<le> cc)"
proof (induction dr dc rr cc rule: rayFrom.induct)
  case (1 dr dc rr cc)
  show ?case
  proof (cases "dr \<noteq> 0 \<and> inBounds rr cc")
    case False
    with "1.prems" show ?thesis by (simp add: rayFrom_stop)
  next
    case True
    with "1.prems" have "p = sq rr cc \<or> p \<in> set (rayFrom dr dc (rr + dr) (cc + dc))"
      by (simp add: rayFrom_step)
    then show ?thesis
    proof
      assume "p = sq rr cc"
      then show ?thesis by simp
    next
      assume "p \<in> set (rayFrom dr dc (rr + dr) (cc + dc))"
      from "1.IH"[OF True this] show ?thesis by auto
    qed
  qed
qed

lemma distinct_rayFrom: "distinct (rayFrom dr dc rr cc)"
proof (induction dr dc rr cc rule: rayFrom.induct)
  case (1 dr dc rr cc)
  show ?case
  proof (cases "dr \<noteq> 0 \<and> inBounds rr cc")
    case False
    then show ?thesis by (simp add: rayFrom_stop)
  next
    case True
    have "sq rr cc \<notin> set (rayFrom dr dc (rr + dr) (cc + dc))"
    proof
      assume "sq rr cc \<in> set (rayFrom dr dc (rr + dr) (cc + dc))"
      from rayFrom_side[OF this] True show False by (cases "dr > 0") auto
    qed
    with True "1.IH" show ?thesis by (simp add: rayFrom_step)
  qed
qed

lemma rayCapturesSpec_landings:
  "\<exists>skipped. map c_to (rayCapturesSpec b r c side dr dc) = skipped
     \<and> distinct skipped \<and> set skipped \<subseteq> set (rayFrom dr dc (r + dr) (c + dc))"
proof -
  let ?ray = "rayFrom dr dc (r + dr) (c + dc)"
  show ?thesis
  proof (cases "dropWhile (emptyAt b) ?ray")
    case Nil
    have "rayCapturesSpec b r c side dr dc = []"
      by (simp only: rayCapturesSpec_def Nil list.case)
    then show ?thesis by simp
  next
    case (Cons e beyond)
    have "distinct (dropWhile (emptyAt b) ?ray)" by (simp add: distinct_rayFrom)
    with Cons have d: "distinct beyond" by simp
    have "set (dropWhile (emptyAt b) ?ray) \<subseteq> set ?ray" by (auto dest: set_dropWhileD)
    with Cons have s: "set beyond \<subseteq> set ?ray" by auto
    have t: "set (takeWhile (emptyAt b) beyond) \<subseteq> set beyond" by (auto dest: set_takeWhileD)
    have "map c_to (rayCapturesSpec b r c side dr dc) =
        (if enemyAt b side e then takeWhile (emptyAt b) beyond else [])"
      using Cons by (simp add: rayCapturesSpec_def comp_def)
    with d s t show ?thesis by auto
  qed
qed

lemma rayCapturesSpec_distinct: "distinct (map c_to (rayCapturesSpec b r c side dr dc))"
  using rayCapturesSpec_landings[of b r c side dr dc] by auto

lemma rayCapturesSpec_side:
  assumes "x \<in> set (rayCapturesSpec b r c side dr dc)"
  shows "(dr > 0 \<longrightarrow> r < sq_r (c_to x)) \<and> (dr < 0 \<longrightarrow> sq_r (c_to x) < r)
     \<and> (dc > 0 \<longrightarrow> c < sq_c (c_to x)) \<and> (dc < 0 \<longrightarrow> sq_c (c_to x) < c)"
proof -
  from assms have "c_to x \<in> set (map c_to (rayCapturesSpec b r c side dr dc))" by simp
  with rayCapturesSpec_landings[of b r c side dr dc]
  have "c_to x \<in> set (rayFrom dr dc (r + dr) (c + dc))" by auto
  from rayFrom_side[OF this] show ?thesis by auto
qed

section \<open>Every stored state is well formed\<close>

lemma stateOK_initial: "stateOK createInitialState"
  by code_simp

lemma storeWinner_fields: "board (storeWinner st) = board st" "rules (storeWinner st) = rules st"
  by (simp_all add: storeWinner_def Let_def)

lemma applyMove_rules: "applyMoveWithRules st mv = Inr st' \<Longrightarrow> rules st' = rules st"
  by (auto simp add: applyMoveWithRules_def Let_def split: option.splits if_splits)

lemma makeMove_stateOK:
  assumes "stateOK (state rm)" and "makeMove (Some rm) sid from_v to_v = Inr (rooms', em)"
  shows "\<exists>rm'. rooms' = Some rm' \<and> stateOK (state rm')"
proof (cases "submissionAccepted rm sid from_v to_v")
  case False
  from makeMove_reject[OF False] assms show ?thesis by simp
next
  case True
  then obtain mv where mv: "submittedMove from_v to_v = Some mv"
    and acc: "accepted (state rm) (sideOf (roleOf rm sid)) mv"
    by (rule submissionAccepted_move)
  from assms(1) have wf: "wf_board (board (state rm))" by (simp add: stateOK_def)
  from wf acc obtain st1 where ap: "applyMoveWithRules (state rm) mv = Inr st1"
    using accepted_applies by metis
  from makeMove_accept[OF True mv ap] assms(2)
  have r: "rooms' = Some (rm\<lparr>state := storeWinner st1\<rparr>)" by simp
  from applyMove_wf[OF wf ap] applyMove_rules[OF ap] assms(1)
  have "stateOK (storeWinner st1)" by (simp add: stateOK_def storeWinner_fields)
  with r show ?thesis by simp
qed

lemma updateRules_stateOK:
  assumes "stateOK (state rm)" and "updateRules (Some rm) sid v = Inr (rooms', em)"
  shows "\<exists>rm'. rooms' = Some rm' \<and> stateOK (state rm')"
  using assms
  by (auto simp add: updateRules_def Let_def stateOK_def rulesOK_def split: if_splits)

lemma handle_stateOK:
  assumes "case rooms of None \<Rightarrow> True | Some rm \<Rightarrow> stateOK (state rm)"
  shows "case handle rooms ev of None \<Rightarrow> True | Some rm \<Rightarrow> stateOK (state rm)"
proof (cases ev)
  case (JoinRoom sid seat clientId)
  with assms stateOK_initial show ?thesis
    by (auto simp add: joinRoom_def getRoom_def Let_def split: option.splits if_splits prod.splits)
next
  case (UpdateRules sid v)
  show ?thesis
  proof (cases rooms)
    case None
    with UpdateRules show ?thesis by (simp add: updateRules_def)
  next
    case (Some rm)
    with assms have ok: "stateOK (state rm)" by simp
    show ?thesis
    proof (cases "updateRules (Some rm) sid v")
      case (Inl e)
      with UpdateRules Some ok show ?thesis by simp
    next
      case (Inr res)
      with updateRules_stateOK[OF ok, of sid v "fst res" "snd res"] UpdateRules Some
      show ?thesis by auto
    qed
  qed
next
  case (MakeMove sid from_v to_v)
  show ?thesis
  proof (cases rooms)
    case None
    with MakeMove show ?thesis by (simp add: makeMove_def)
  next
    case (Some rm)
    with assms have ok: "stateOK (state rm)" by simp
    show ?thesis
    proof (cases "makeMove (Some rm) sid from_v to_v")
      case (Inl e)
      with MakeMove Some ok show ?thesis by simp
    next
      case (Inr res)
      with makeMove_stateOK[OF ok, of sid from_v to_v "fst res" "snd res"] MakeMove Some
      show ?thesis by auto
    qed
  qed
next
  case (ResetGame sid)
  with assms stateOK_initial show ?thesis
    by (auto simp add: resetGame_def split: option.splits)
next
  case (Disconnect sid)
  with assms show ?thesis
    by (auto simp add: disconnect_def Let_def split: option.splits)
qed

lemma foldl_handle_stateOK:
  "(case rooms of None \<Rightarrow> True | Some rm \<Rightarrow> stateOK (state rm)) \<Longrightarrow>
   (case foldl handle rooms evs of None \<Rightarrow> True | Some rm \<Rightarrow> stateOK (state rm))"
proof (induction evs arbitrary: rooms)
  case Nil
  then show ?case by simp
next
  case (Cons ev evs)
  from Cons.IH[OF handle_stateOK[OF Cons.prems, of ev]] show ?case by simp
qed

lemma run_stateOK: "run evs = Some rm \<Longrightarrow> stateOK (state rm)"
  using foldl_handle_stateOK[of None evs] by (simp add: run_def)

section \<open>An accepted move leaves a piece on the board\<close>

text \<open>
  \<open>checkWinner\<close> is called on the state that an accepted move produces. That board holds
  a piece: the placed one, or, when the penalty rule removed it, the enemy that could have
  been captured.
\<close>

lemma accepted_leaves_piece:
  assumes wf: "wf_board (board st)" and acc: "accepted st side mv"
    and ap: "applyMoveWithRules st mv = Inr st'"
  shows "\<exists>r c. inBounds r c \<and> sign (cell (board st') r c) \<noteq> 0"
proof -
  let ?b = "board st"
  from acc obtain piece where p: "cellAt ?b (m_from mv) = Some piece" and nz: "piece \<noteq> 0"
    and sg: "sign (Some piece) = side" by (rule accepted_piece)
  from accepted_facts(6)[OF acc] have t0: "cellAt ?b (m_to mv) = Some 0" .
  then have t: "cellAt ?b (m_to mv) \<noteq> None" by simp
  note cells = applyMove_cellAt[OF wf p t ap]
  have wf': "wf_board (board st')" using wf ap by (rule applyMove_wf)
  have "\<exists>q v. cellAt (board st') q = Some v \<and> v \<noteq> 0"
  proof (cases "penaltyDue st mv")
    case False
    with cells[of "m_to mv"] placedPiece_nonzero[OF nz, of "sq_r (m_to mv)"]
    show ?thesis by auto
  next
    case True
    then have av: "anyCaptureAvailable ?b side (rules st)"
      and nc: "\<not> isCaptureMove ?b (rules st) mv"
      using p sg by (simp_all add: penaltyDue_def)
    from av[unfolded anyCaptureAvailable_iff] obtain r c
      where s: "sign (cell ?b r c) = side"
        and ne: "listCapturesForPiece ?b r c (rules st) \<noteq> []" by blast
    from ne obtain x where mem: "x \<in> set (listCapturesForPiece ?b r c (rules st))"
      by (cases "listCapturesForPiece ?b r c (rules st)") auto
    from listCapturesForPiece_sound[OF wf mem] s
    have en: "enemyAt ?b side (c_over x)" by simp
    then obtain v where v: "cellAt ?b (c_over x) = Some v" and vz: "v \<noteq> 0"
      and vs: "sign (Some v) = - side"
      by (cases "cellAt ?b (c_over x)") (auto simp add: enemyAt_def)
    from v vz t0 have n1: "c_over x \<noteq> m_to mv" by auto
    from nz sg have "side \<noteq> 0" by (auto split: if_splits)
    with vs sg p v have n2: "c_over x \<noteq> m_from mv" by auto
    from nc have "capMatch ?b (rules st) mv = None" by (simp add: capMatch_None_iff)
    with cells[of "c_over x"] n1 n2 v have "cellAt (board st') (c_over x) = Some v" by simp
    with vz show ?thesis by blast
  qed
  then obtain q v where q: "cellAt (board st') q = Some v" and vz: "v \<noteq> 0" by blast
  from cell_inBounds[OF wf' q] have "inBounds (sq_r q) (sq_c q)" .
  moreover from q vz have "sign (cellAt (board st') q) \<noteq> 0" by simp
  ultimately show ?thesis by blast
qed

section \<open>Captures land on empty squares and jump enemies\<close>

text \<open>
  C5. On every board, for every source square, side and rule configuration, each capture
  that \<open>listManCaptures\<close>, \<open>listKingCaptures\<close> (short or flying) and
  \<open>listCapturesForPiece\<close> return has an empty landing square and jumps a square that
  holds a piece of the other side: the jumped square is neither empty nor of the moving
  side, and the landing square is not occupied.
\<close>

theorem legalCaptures_sound:
  assumes "wf_board b"
  shows "(\<forall>x \<in> set (listManCaptures b r c side back).
            emptyAt b (c_to x) \<and> enemyAt b side (c_over x))
       \<and> (\<forall>x \<in> set (listKingCaptures b r c side fly).
            emptyAt b (c_to x) \<and> enemyAt b side (c_over x))
       \<and> (\<forall>x \<in> set (listCapturesForPiece b r c rl).
            emptyAt b (c_to x) \<and> enemyAt b (sign (cell b r c)) (c_over x))"
  using assms listManCaptures_sound listKingCaptures_sound listCapturesForPiece_sound
  by blast

theorem legalCaptures_sound_witness:
  "wf_board manBoard
   \<and> \<lparr>c_from = sq 3 4, c_over = sq 2 3, c_to = sq 1 2\<rparr>
       \<in> set (listManCaptures manBoard 3 4 1 False)
   \<and> emptyAt manBoard (sq 1 2) \<and> enemyAt manBoard 1 (sq 2 3)
   \<and> \<lparr>c_from = sq 3 4, c_over = sq 4 5, c_to = sq 5 6\<rparr>
       \<in> set (listKingCaptures manBoard 3 4 1 True)
   \<and> emptyAt manBoard (sq 5 6) \<and> enemyAt manBoard 1 (sq 4 5)
   \<and> \<lparr>c_from = sq 3 4, c_over = sq 2 3, c_to = sq 1 2\<rparr>
       \<in> set (listCapturesForPiece manBoard 3 4 defaultRules)
   \<and> sign (cell manBoard 3 4) = 1
   \<and> enemyAt manBoard (sign (cell manBoard 3 4)) (sq 2 3)"
proof -
  have wf: "wf_board manBoard" by code_simp
  have m: "\<lparr>c_from = sq 3 4, c_over = sq 2 3, c_to = sq 1 2\<rparr>
      \<in> set (listManCaptures manBoard 3 4 1 False)" by code_simp
  have k: "\<lparr>c_from = sq 3 4, c_over = sq 4 5, c_to = sq 5 6\<rparr>
      \<in> set (listKingCaptures manBoard 3 4 1 True)" by code_simp
  have p: "\<lparr>c_from = sq 3 4, c_over = sq 2 3, c_to = sq 1 2\<rparr>
      \<in> set (listCapturesForPiece manBoard 3 4 defaultRules)" by code_simp
  have s: "sign (cell manBoard 3 4) = 1" by code_simp
  from legalCaptures_sound[OF wf, of 3 4 1 False True defaultRules] m k
  have "emptyAt manBoard (sq 1 2) \<and> enemyAt manBoard 1 (sq 2 3)
      \<and> emptyAt manBoard (sq 5 6) \<and> enemyAt manBoard 1 (sq 4 5)"
    by fastforce
  moreover from legalCaptures_sound[OF wf, of 3 4 1 False True defaultRules] p
  have "enemyAt manBoard (sign (cell manBoard 3 4)) (sq 2 3)"
    by fastforce
  ultimately show ?thesis using wf m k p s by blast
qed

section \<open>The penalty rule\<close>

text \<open>
  C1. For every state and accepted move: when \<open>mustCapture\<close> and
  \<open>skipCapturePenaltyRemoveMoved\<close> are both set, a capture is available to the moving
  side on the board before the move, and the move is no capture, \<open>applyMoveWithRules\<close>
  leaves the target square empty, sets \<open>penaltyRemoved\<close>, and flips the turn. When one
  of the conditions fails, the placed piece stays on the target square and
  \<open>penaltyRemoved\<close> is false; the turn flips as well.
\<close>

theorem penalty_rule:
  assumes "wf_board (board st)" and "accepted st side mv"
  shows "\<exists>st' lm piece. applyMoveWithRules st mv = Inr st' \<and> lastMove st' = Some lm
     \<and> cellAt (board st) (m_from mv) = Some piece
     \<and> turn st' = - turn st
     \<and> (if mustCapture (rules st) \<and> skipCapturePenaltyRemoveMoved (rules st)
            \<and> anyCaptureAvailable (board st) side (rules st)
            \<and> \<not> isCaptureMove (board st) (rules st) mv
         then cellAt (board st') (m_to mv) = Some 0 \<and> penaltyRemoved lm
         else cellAt (board st') (m_to mv) = Some (placedPiece piece (sq_r (m_to mv)))
            \<and> placedPiece piece (sq_r (m_to mv)) \<noteq> 0 \<and> \<not> penaltyRemoved lm)"
proof -
  from assms obtain st' piece where ap: "applyMoveWithRules st mv = Inr st'"
    and p: "cellAt (board st) (m_from mv) = Some piece" and nz: "piece \<noteq> 0"
    and sg: "sign (Some piece) = side"
    and lm: "lastMove st' = Some \<lparr>lm_from = m_from mv, lm_to = m_to mv,
           captured = map_option c_over (capMatch (board st) (rules st) mv),
           penaltyRemoved = penaltyDue st mv\<rparr>"
    and tn: "turn st' = - turn st"
    by (rule accepted_applies)
  from accepted_facts(6)[OF assms(2)] have t: "cellAt (board st) (m_to mv) \<noteq> None" by simp
  have c: "cellAt (board st') (m_to mv) =
      Some (if penaltyDue st mv then 0 else placedPiece piece (sq_r (m_to mv)))"
    using applyMove_cells[OF assms(1) p t ap, of "sq_r (m_to mv)" "sq_c (m_to mv)"] by simp
  have pd: "penaltyDue st mv \<longleftrightarrow>
      mustCapture (rules st) \<and> skipCapturePenaltyRemoveMoved (rules st)
      \<and> anyCaptureAvailable (board st) side (rules st)
      \<and> \<not> isCaptureMove (board st) (rules st) mv"
    using p sg by (simp add: penaltyDue_def)
  show ?thesis
    using ap lm p tn c pd placedPiece_nonzero[OF nz] by auto
qed

theorem penalty_rule_witness:
  "wf_board (board manState) \<and> accepted manState 1 skipMove
   \<and> mustCapture (rules manState) \<and> skipCapturePenaltyRemoveMoved (rules manState)
   \<and> anyCaptureAvailable (board manState) 1 (rules manState)
   \<and> \<not> isCaptureMove (board manState) (rules manState) skipMove
   \<and> (\<exists>st' lm. applyMoveWithRules manState skipMove = Inr st' \<and> lastMove st' = Some lm
        \<and> turn st' = - turn manState
        \<and> cellAt (board st') (m_to skipMove) = Some 0 \<and> penaltyRemoved lm)"
proof -
  have wf: "wf_board (board manState)" by code_simp
  have acc: "accepted manState 1 skipMove" by code_simp
  have c: "mustCapture (rules manState) \<and> skipCapturePenaltyRemoveMoved (rules manState)
     \<and> anyCaptureAvailable (board manState) 1 (rules manState)
     \<and> \<not> isCaptureMove (board manState) (rules manState) skipMove" by code_simp
  from penalty_rule[OF wf acc] c
  have "\<exists>st' lm. applyMoveWithRules manState skipMove = Inr st' \<and> lastMove st' = Some lm
        \<and> turn st' = - turn manState
        \<and> cellAt (board st') (m_to skipMove) = Some 0 \<and> penaltyRemoved lm"
    by (simp only: simp_thms if_True) blast
  with wf acc c show ?thesis by blast
qed

section \<open>The capture is recomputed by the applier\<close>

text \<open>
  C2. \<open>applyMoveWithRules\<close> takes the state and the two squares only, and decides by
  itself whether the move is a capture: for every move between squares of the board,
  validated by the caller or not, it records a captured square exactly when the target is
  the landing square of one of the captures recomputed for the source square on the board
  before the move; the recorded square is the jumped square of such a capture, it holds an
  enemy of the moving piece before the move and is empty on the new board. A move that is
  treated as a capture is never penalised.
\<close>

theorem capture_rederived:
  assumes "wf_board (board st)"
    and "inBounds (sq_r (m_from mv)) (sq_c (m_from mv))"
    and "inBounds (sq_r (m_to mv)) (sq_c (m_to mv))"
  shows "\<exists>st' lm. applyMoveWithRules st mv = Inr st' \<and> lastMove st' = Some lm
     \<and> (captured lm \<noteq> None \<longleftrightarrow> isCaptureMove (board st) (rules st) mv)
     \<and> (\<forall>p. captured lm = Some p \<longrightarrow>
           (\<exists>x \<in> set (listCapturesForPiece (board st) (sq_r (m_from mv)) (sq_c (m_from mv))
                        (rules st)).
              c_to x = m_to mv \<and> c_over x = p)
           \<and> enemyAt (board st) (sign (cellAt (board st) (m_from mv))) p
           \<and> cellAt (board st') p = Some 0)
     \<and> (penaltyRemoved lm \<longrightarrow> \<not> isCaptureMove (board st) (rules st) mv)"
proof -
  let ?b = "board st"
  from wf_cell[OF assms(1,2)] obtain piece where p: "cellAt ?b (m_from mv) = Some piece" ..
  from wf_cell[OF assms(1,3)] have t: "cellAt ?b (m_to mv) \<noteq> None" by auto
  note u = applyMove_unfold[OF p t]
  let ?st' = "projr (applyMoveWithRules st mv)"
  let ?lm = "\<lparr>lm_from = m_from mv, lm_to = m_to mv,
               captured = map_option c_over (capMatch ?b (rules st) mv),
               penaltyRemoved = penaltyDue st mv\<rparr>"
  have lm: "lastMove ?st' = Some ?lm" by (simp add: u)
  have ap: "applyMoveWithRules st mv = Inr ?st'" by (simp add: u)
  have c1: "captured ?lm \<noteq> None \<longleftrightarrow> isCaptureMove ?b (rules st) mv"
    by (simp add: capMatch_None_iff)
  have c3: "penaltyRemoved ?lm \<longrightarrow> \<not> isCaptureMove ?b (rules st) mv"
    by (simp add: penaltyDue_def)
  have c2: "(\<exists>x \<in> set (listCapturesForPiece ?b (sq_r (m_from mv)) (sq_c (m_from mv)) (rules st)).
              c_to x = m_to mv \<and> c_over x = q)
           \<and> enemyAt ?b (sign (cellAt ?b (m_from mv))) q
           \<and> cellAt (board ?st') q = Some 0" if q: "captured ?lm = Some q" for q
  proof -
    from q obtain x where cm: "capMatch ?b (rules st) mv = Some x" and xq: "c_over x = q"
      by auto
    note m = capMatch_Some[OF cm]
    from m have mem: "x \<in> set (listCapturesForPiece ?b (sq_r (m_from mv)) (sq_c (m_from mv)) (rules st))"
      and to: "c_to x = m_to mv" by simp_all
    from listCapturesForPiece_sound[OF assms(1) mem]
    have en: "enemyAt ?b (sign (cellAt ?b (m_from mv))) (c_over x)" by simp
    from capture_squares(4)[OF assms(1) mem] to have ne: "c_over x \<noteq> m_to mv" by simp
    have "cellAt (board ?st') (c_over x) = Some 0"
      using applyMove_cellAt[OF assms(1) p t ap, of "c_over x"] ne cm
      by simp
    with mem to en xq show ?thesis by blast
  qed
  from ap lm c1 c2 c3 show ?thesis by blast
qed

theorem capture_rederived_witness:
  "wf_board (board manState)
   \<and> inBounds (sq_r (m_from takeMove)) (sq_c (m_from takeMove))
   \<and> inBounds (sq_r (m_to takeMove)) (sq_c (m_to takeMove))
   \<and> isCaptureMove (board manState) (rules manState) takeMove
   \<and> (\<exists>st' lm. applyMoveWithRules manState takeMove = Inr st' \<and> lastMove st' = Some lm
        \<and> captured lm = Some (sq 2 3) \<and> cellAt (board st') (sq 2 3) = Some 0)"
proof -
  have wf: "wf_board (board manState)" by code_simp
  have f: "inBounds (sq_r (m_from takeMove)) (sq_c (m_from takeMove))" by code_simp
  have t: "inBounds (sq_r (m_to takeMove)) (sq_c (m_to takeMove))" by code_simp
  have c: "isCaptureMove (board manState) (rules manState) takeMove" by code_simp
  have l: "listCapturesForPiece (board manState) (sq_r (m_from takeMove))
      (sq_c (m_from takeMove)) (rules manState)
      = [\<lparr>c_from = sq 3 4, c_over = sq 2 3, c_to = sq 1 2\<rparr>]" by code_simp
  from capture_rederived[OF wf f t] obtain st' lm
    where ap: "applyMoveWithRules manState takeMove = Inr st'" and lm: "lastMove st' = Some lm"
      and iff: "captured lm \<noteq> None \<longleftrightarrow> isCaptureMove (board manState) (rules manState) takeMove"
      and ov: "\<forall>p. captured lm = Some p \<longrightarrow>
           (\<exists>x \<in> set (listCapturesForPiece (board manState) (sq_r (m_from takeMove))
                        (sq_c (m_from takeMove)) (rules manState)).
              c_to x = m_to takeMove \<and> c_over x = p)
           \<and> enemyAt (board manState) (sign (cellAt (board manState) (m_from takeMove))) p
           \<and> cellAt (board st') p = Some 0"
    by blast
  from iff c obtain p where p: "captured lm = Some p" by auto
  with ov l have "p = sq 2 3" and "cellAt (board st') p = Some 0" by auto
  with ap lm p wf f t c show ?thesis by blast
qed

section \<open>Flying king captures\<close>

text \<open>
  C3, as stated, fails on \<open>rayBoard\<close>. On the ray from the White king on (7,0) towards
  (0,7) the first piece met is the enemy on (6,1) and a second piece, on (4,3), is met later:
  the ray still yields the capture that lands on (5,2), between the two. And (3,4) is an empty
  square beyond the first piece on which no capture lands.
\<close>

theorem flyingCaptures_counterexample:
  "listKingCaptures rayBoard 7 0 1 True = [\<lparr>c_from = sq 7 0, c_over = sq 6 1, c_to = sq 5 2\<rparr>]
   \<and> cell rayBoard 6 1 = Some (- 1) \<and> cell rayBoard 5 2 = Some 0
   \<and> cell rayBoard 4 3 = Some (- 1) \<and> cell rayBoard 3 4 = Some 0"
  by code_simp

text \<open>
  C3, amended. With \<open>flyingKingCapture\<close> set, the captures of a king are those of its
  four rays, in the order of the loops, and on each ray they are \<open>rayCapturesSpec\<close>: none
  when the ray has no piece or when the first piece met is no enemy; otherwise one capture
  over that enemy for every empty square between it and the next piece (or the edge of the
  board when there is none), so none when the next piece follows the enemy at once and none
  that lands beyond a second piece. The landing squares of the captures are pairwise
  different.
\<close>

theorem flyingCaptures_spec:
  assumes "wf_board b"
  shows "listKingCaptures b r c side True =
           concat (map (\<lambda>dr. concat (map (\<lambda>dc. rayCapturesSpec b r c side dr dc) [-1, 1]))
             [-1, 1])
       \<and> distinct (map c_to (listKingCaptures b r c side True))"
proof -
  have eq: "listKingCaptures b r c side True =
      rayCapturesSpec b r c side (-1) (-1) @ rayCapturesSpec b r c side (-1) 1
      @ rayCapturesSpec b r c side 1 (-1) @ rayCapturesSpec b r c side 1 1"
    using assms by (simp add: listKingCaptures_def scanRay_spec[symmetric])
  have d: "distinct (map c_to (rayCapturesSpec b r c side (-1) (-1) @ rayCapturesSpec b r c side (-1) 1
      @ rayCapturesSpec b r c side 1 (-1) @ rayCapturesSpec b r c side 1 1))"
    using rayCapturesSpec_side[of _ b r c side "-1" "-1"]
      rayCapturesSpec_side[of _ b r c side "-1" 1]
      rayCapturesSpec_side[of _ b r c side 1 "-1"]
      rayCapturesSpec_side[of _ b r c side 1 1]
    by (fastforce simp add: rayCapturesSpec_distinct)
  from eq d show ?thesis by simp
qed

theorem flyingCaptures_spec_witness:
  "wf_board openRayBoard
   \<and> rayCapturesSpec openRayBoard 7 0 1 (- 1) 1 =
         [\<lparr>c_from = sq 7 0, c_over = sq 6 1, c_to = sq 5 2\<rparr>,
          \<lparr>c_from = sq 7 0, c_over = sq 6 1, c_to = sq 4 3\<rparr>,
          \<lparr>c_from = sq 7 0, c_over = sq 6 1, c_to = sq 3 4\<rparr>,
          \<lparr>c_from = sq 7 0, c_over = sq 6 1, c_to = sq 2 5\<rparr>,
          \<lparr>c_from = sq 7 0, c_over = sq 6 1, c_to = sq 1 6\<rparr>,
          \<lparr>c_from = sq 7 0, c_over = sq 6 1, c_to = sq 0 7\<rparr>]
   \<and> listKingCaptures openRayBoard 7 0 1 True =
         [\<lparr>c_from = sq 7 0, c_over = sq 6 1, c_to = sq 5 2\<rparr>,
          \<lparr>c_from = sq 7 0, c_over = sq 6 1, c_to = sq 4 3\<rparr>,
          \<lparr>c_from = sq 7 0, c_over = sq 6 1, c_to = sq 3 4\<rparr>,
          \<lparr>c_from = sq 7 0, c_over = sq 6 1, c_to = sq 2 5\<rparr>,
          \<lparr>c_from = sq 7 0, c_over = sq 6 1, c_to = sq 1 6\<rparr>,
          \<lparr>c_from = sq 7 0, c_over = sq 6 1, c_to = sq 0 7\<rparr>]
   \<and> distinct (map c_to (listKingCaptures openRayBoard 7 0 1 True))"
proof -
  have wf: "wf_board openRayBoard" by code_simp
  have 1: "rayCapturesSpec openRayBoard 7 0 1 (- 1) (- 1) = []" by code_simp
  have 2: "rayCapturesSpec openRayBoard 7 0 1 (- 1) 1 =
         [\<lparr>c_from = sq 7 0, c_over = sq 6 1, c_to = sq 5 2\<rparr>,
          \<lparr>c_from = sq 7 0, c_over = sq 6 1, c_to = sq 4 3\<rparr>,
          \<lparr>c_from = sq 7 0, c_over = sq 6 1, c_to = sq 3 4\<rparr>,
          \<lparr>c_from = sq 7 0, c_over = sq 6 1, c_to = sq 2 5\<rparr>,
          \<lparr>c_from = sq 7 0, c_over = sq 6 1, c_to = sq 1 6\<rparr>,
          \<lparr>c_from = sq 7 0, c_over = sq 6 1, c_to = sq 0 7\<rparr>]" by code_simp
  have 3: "rayCapturesSpec openRayBoard 7 0 1 1 (- 1) = []" by code_simp
  have 4: "rayCapturesSpec openRayBoard 7 0 1 1 1 = []" by code_simp
  from flyingCaptures_spec[OF wf, of 7 0 1]
  have "listKingCaptures openRayBoard 7 0 1 True =
         [\<lparr>c_from = sq 7 0, c_over = sq 6 1, c_to = sq 5 2\<rparr>,
          \<lparr>c_from = sq 7 0, c_over = sq 6 1, c_to = sq 4 3\<rparr>,
          \<lparr>c_from = sq 7 0, c_over = sq 6 1, c_to = sq 3 4\<rparr>,
          \<lparr>c_from = sq 7 0, c_over = sq 6 1, c_to = sq 2 5\<rparr>,
          \<lparr>c_from = sq 7 0, c_over = sq 6 1, c_to = sq 1 6\<rparr>,
          \<lparr>c_from = sq 7 0, c_over = sq 6 1, c_to = sq 0 7\<rparr>]"
    and "distinct (map c_to (listKingCaptures openRayBoard 7 0 1 True))"
    by (simp_all add: 1 2 3 4)
  with wf 2 show ?thesis by simp
qed

section \<open>The winner\<close>

text \<open>
  C4. On every board that holds a piece, as the board after an accepted move does,
  \<open>checkWinner\<close> answers White when the board has no Black piece and Black when it has
  no White piece, whoever is to move; otherwise the opponent of the side to move when no
  square of that side has a capture or a simple move (no move is a loss, not a draw); and 0,
  the game goes on, otherwise.
\<close>

theorem checkWinner_spec:
  assumes "\<exists>r c. inBounds r c \<and> sign (cell (board st) r c) \<noteq> 0"
  shows "checkWinner st =
     (if \<not> (\<exists>r c. inBounds r c \<and> sign (cell (board st) r c) = - 1) then 1
      else if \<not> (\<exists>r c. inBounds r c \<and> sign (cell (board st) r c) = 1) then - 1
      else if \<not> (\<exists>r c. inBounds r c \<and> sign (cell (board st) r c) = turn st
                \<and> (listCapturesForPiece (board st) r c (rules st) \<noteq> []
                   \<or> listMovesForPiece (board st) r c (rules st) \<noteq> []))
        then - turn st
      else 0)"
proof -
  have s: "sign v = 1 \<or> sign v = - 1 \<or> sign v = 0" for v
    by (cases v) auto
  from assms obtain r c where rc: "inBounds r c" and nz: "sign (cell (board st) r c) \<noteq> 0"
    by blast
  with s[of "cell (board st) r c"]
  have "(\<exists>r c. inBounds r c \<and> sign (cell (board st) r c) = 1)
      \<or> (\<exists>r c. inBounds r c \<and> sign (cell (board st) r c) = - 1)" by blast
  then show ?thesis
    unfolding checkWinner_def Let_def countPieces_zero_iff hasAnyLegalMove_iff by auto
qed

theorem checkWinner_spec_witness:
  "inBounds 7 0 \<and> sign (cell (board loneKingState) 7 0) \<noteq> 0
   \<and> countPieces (board loneKingState) (- 1) = 0 \<and> turn loneKingState = - 1
   \<and> checkWinner loneKingState = 1
   \<and> inBounds 3 4 \<and> sign (cell (board manState) 3 4) \<noteq> 0
   \<and> checkWinner manState = 0
   \<and> (\<exists>r c. inBounds r c \<and> sign (cell (board manState) r c) = - 1)
   \<and> (\<exists>r c. inBounds r c \<and> sign (cell (board manState) r c) = 1)"
proof -
  have h1: "inBounds 7 0 \<and> sign (cell (board loneKingState) 7 0) \<noteq> 0" by code_simp
  have n: "countPieces (board loneKingState) (- 1) = 0" by code_simp
  have tn: "turn loneKingState = - 1" by code_simp
  from n have nb: "\<not> (\<exists>r c. inBounds r c \<and> sign (cell (board loneKingState) r c) = - 1)"
    by (simp only: countPieces_zero_iff simp_thms)
  from h1 have e1: "\<exists>r c. inBounds r c \<and> sign (cell (board loneKingState) r c) \<noteq> 0" by blast
  have w1: "checkWinner loneKingState = 1"
    by (subst checkWinner_spec[OF e1]) (simp only: nb simp_thms if_True)
  have h2: "inBounds 3 4 \<and> sign (cell (board manState) 3 4) \<noteq> 0" by code_simp
  then have e2: "\<exists>r c. inBounds r c \<and> sign (cell (board manState) r c) \<noteq> 0" by blast
  have z: "checkWinner manState = 0" by code_simp
  from checkWinner_spec[OF e2] z
  have b: "(\<exists>r c. inBounds r c \<and> sign (cell (board manState) r c) = - 1)
     \<and> (\<exists>r c. inBounds r c \<and> sign (cell (board manState) r c) = 1)"
    by (auto split: if_splits)
  from h1 n tn w1 h2 z b show ?thesis by blast
qed

section \<open>Turn alternation\<close>

text \<open>
  C6. \<open>makeMove\<close> on a room with an 8 by 8 board always returns. When the submission
  passes every check (it is accepted), the turn of the stored state is the opposite of the
  turn before, and that state is emitted; otherwise the room is unchanged, the turn with it,
  and nothing is emitted. For every accepted move, capture or not, \<open>applyMoveWithRules\<close>
  returns a state whose turn is the opposite of the turn before.
\<close>

theorem turn_alternation:
  assumes "wf_board (board (state rm))"
  shows "(\<exists>rm' em. makeMove (Some rm) sid from_v to_v = Inr (Some rm', em)
          \<and> (if submissionAccepted rm sid from_v to_v
              then turn (state rm') = - turn (state rm) \<and> em = Some (state rm')
              else rm' = rm \<and> em = None))
       \<and> (\<forall>side mv. accepted (state rm) side mv \<longrightarrow>
            (\<exists>st'. applyMoveWithRules (state rm) mv = Inr st' \<and> turn st' = - turn (state rm)))"
proof
  show "\<exists>rm' em. makeMove (Some rm) sid from_v to_v = Inr (Some rm', em)
          \<and> (if submissionAccepted rm sid from_v to_v
              then turn (state rm') = - turn (state rm) \<and> em = Some (state rm')
              else rm' = rm \<and> em = None)"
  proof (cases "submissionAccepted rm sid from_v to_v")
    case False
    with makeMove_reject[OF False] show ?thesis by simp
  next
    case True
    then obtain mv where mv: "submittedMove from_v to_v = Some mv"
      and acc: "accepted (state rm) (sideOf (roleOf rm sid)) mv"
      by (rule submissionAccepted_move)
    from assms acc obtain st1 where ap: "applyMoveWithRules (state rm) mv = Inr st1"
      and tn: "turn st1 = - turn (state rm)"
      using accepted_applies by metis
    from makeMove_accept[OF True mv ap] tn True show ?thesis
      by (simp add: storeWinner_turn)
  qed
next
  show "\<forall>side mv. accepted (state rm) side mv \<longrightarrow>
            (\<exists>st'. applyMoveWithRules (state rm) mv = Inr st' \<and> turn st' = - turn (state rm))"
    using assms accepted_applies by metis
qed

theorem turn_alternation_witness:
  "wf_board (board (state demoRoom))
   \<and> submissionAccepted demoRoom ''w'' (jsSquare (JInt 3) (JInt 4)) (jsSquare (JInt 1) (JInt 2))
   \<and> (\<exists>rm' em. makeMove (Some demoRoom) ''w'' (jsSquare (JInt 3) (JInt 4))
          (jsSquare (JInt 1) (JInt 2)) = Inr (Some rm', em)
        \<and> turn (state rm') = - turn (state demoRoom) \<and> em = Some (state rm'))
   \<and> \<not> submissionAccepted demoRoom ''b'' (jsSquare (JInt 3) (JInt 4)) (jsSquare (JInt 1) (JInt 2))
   \<and> makeMove (Some demoRoom) ''b'' (jsSquare (JInt 3) (JInt 4)) (jsSquare (JInt 1) (JInt 2))
       = Inr (Some demoRoom, None)
   \<and> accepted (state demoRoom) 1 skipMove
   \<and> (\<exists>st'. applyMoveWithRules (state demoRoom) skipMove = Inr st'
        \<and> turn st' = - turn (state demoRoom))"
proof -
  let ?f = "jsSquare (JInt 3) (JInt 4)" and ?t = "jsSquare (JInt 1) (JInt 2)"
  have wf: "wf_board (board (state demoRoom))" by code_simp
  have a: "submissionAccepted demoRoom ''w'' ?f ?t" by code_simp
  have r: "\<not> submissionAccepted demoRoom ''b'' ?f ?t" by code_simp
  have m: "accepted (state demoRoom) 1 skipMove" by code_simp
  note th = turn_alternation[OF wf]
  from th[of "''w''" ?f ?t] a
  have 1: "\<exists>rm' em. makeMove (Some demoRoom) ''w'' ?f ?t = Inr (Some rm', em)
        \<and> turn (state rm') = - turn (state demoRoom) \<and> em = Some (state rm')"
    by auto
  from th[of "''b''" ?f ?t] r
  have 2: "makeMove (Some demoRoom) ''b'' ?f ?t = Inr (Some demoRoom, None)"
    by auto
  from th[of "''w''" ?f ?t] m
  have 3: "\<exists>st'. applyMoveWithRules (state demoRoom) skipMove = Inr st'
        \<and> turn st' = - turn (state demoRoom)"
    by blast
  from wf a 1 r 2 m 3 show ?thesis by blast
qed

section \<open>Promotion\<close>



section \<open>Rejected submissions\<close>

text \<open>
  C8. A submission leaves the room as it is and emits nothing when a coordinate is no
  integer, when a square is out of bounds, when the source square is empty or holds no piece
  of the submitting side, when the target square is not empty, when the target is neither a
  simple move nor a capture of the source piece, when it is not the submitting side's turn,
  or when the winner is set.
\<close>

theorem silent_rejection:
  assumes "integerCoords from_v to_v = None
     \<or> (\<exists>fr fc tr tc. integerCoords from_v to_v = Some (fr, fc, tr, tc) \<and>
          (\<not> inBounds fr fc \<or> \<not> inBounds tr tc
           \<or> cell (board (state rm)) fr fc = Some 0
           \<or> sign (cell (board (state rm)) fr fc) \<noteq> sideOf (roleOf rm sid)
           \<or> cell (board (state rm)) tr tc \<noteq> Some 0
           \<or> \<not> (list_ex (\<lambda>x. isTarget tr tc (c_to x))
                   (listCapturesForPiece (board (state rm)) fr fc (rules (state rm)))
                 \<or> list_ex (\<lambda>x. isTarget tr tc (m_to x))
                   (listMovesForPiece (board (state rm)) fr fc (rules (state rm))))))
     \<or> turn (state rm) \<noteq> sideOf (roleOf rm sid)
     \<or> winner (state rm) \<noteq> 0"
  shows "makeMove (Some rm) sid from_v to_v = Inr (Some rm, None)"
proof -
  have "\<not> submissionAccepted rm sid from_v to_v"
    using assms
    by (auto simp add: submissionAccepted_def submittedMove_def accepted_def Let_def sideOf_def
        split: option.splits)
  then show ?thesis by (rule makeMove_reject)
qed

theorem silent_rejection_witness:
  "integerCoords (jsSquare JFrac (JInt 4)) (jsSquare (JInt 1) (JInt 2)) = None
   \<and> makeMove (Some demoRoom) ''w'' (jsSquare JFrac (JInt 4)) (jsSquare (JInt 1) (JInt 2))
       = Inr (Some demoRoom, None)
   \<and> integerCoords (jsSquare (JInt 3) (JInt 4)) (jsSquare (JInt 1) (JInt 8)) = Some (3, 4, 1, 8)
   \<and> \<not> inBounds 1 8
   \<and> makeMove (Some demoRoom) ''w'' (jsSquare (JInt 3) (JInt 4)) (jsSquare (JInt 1) (JInt 8))
       = Inr (Some demoRoom, None)
   \<and> turn (state demoRoom) \<noteq> sideOf (roleOf demoRoom ''b'')
   \<and> makeMove (Some demoRoom) ''b'' (jsSquare (JInt 4) (JInt 5)) (jsSquare (JInt 5) (JInt 4))
       = Inr (Some demoRoom, None)"
proof -
  have 1: "integerCoords (jsSquare JFrac (JInt 4)) (jsSquare (JInt 1) (JInt 2)) = None"
    by code_simp
  have 2: "integerCoords (jsSquare (JInt 3) (JInt 4)) (jsSquare (JInt 1) (JInt 8))
      = Some (3, 4, 1, 8)" by code_simp
  have 3: "\<not> inBounds 1 8" by code_simp
  have 4: "turn (state demoRoom) \<noteq> sideOf (roleOf demoRoom ''b'')" by code_simp
  have r1: "makeMove (Some demoRoom) ''w'' (jsSquare JFrac (JInt 4)) (jsSquare (JInt 1) (JInt 2))
       = Inr (Some demoRoom, None)"
    by (rule silent_rejection) (simp only: 1 simp_thms)
  have r2: "makeMove (Some demoRoom) ''w'' (jsSquare (JInt 3) (JInt 4))
       (jsSquare (JInt 1) (JInt 8)) = Inr (Some demoRoom, None)"
    by (rule silent_rejection) (use 2 3 in blast)
  have r3: "makeMove (Some demoRoom) ''b'' (jsSquare (JInt 4) (JInt 5))
       (jsSquare (JInt 5) (JInt 4)) = Inr (Some demoRoom, None)"
    by (rule silent_rejection) (use 4 in blast)
  from 1 2 3 4 r1 r2 r3 show ?thesis by blast
qed

section \<open>What the applier changes\<close>

text \<open>
  C9. For every accepted move, the board that \<open>applyMoveWithRules\<close> returns is again 8 by
  8 and differs from the board before the move only on the source square, which is empty; on
  the jumped square of the matched capture when the move is a capture; and on the target
  square, which holds the placed piece, or nothing after a penalty. When the target is the
  landing square of a capture recomputed for the source square, the square recorded as
  captured is the jumped square of such a capture: it is neither the source nor the target,
  it held an enemy before the move and is empty afterwards. When the move is no capture,
  nothing is recorded as captured and every cell but source and target is as before. In both
  cases every other cell is unchanged, and so are the fields \<open>rules\<close> and \<open>winner\<close>.
\<close>

theorem applyMove_frame:
  assumes "wf_board (board st)" and "accepted st side mv"
  shows "\<exists>st' lm piece. applyMoveWithRules st mv = Inr st' \<and> lastMove st' = Some lm
     \<and> cellAt (board st) (m_from mv) = Some piece
     \<and> rules st' = rules st \<and> winner st' = winner st
     \<and> wf_board (board st')
     \<and> cellAt (board st') (m_from mv) = Some 0
     \<and> (isCaptureMove (board st) (rules st) mv \<longrightarrow>
          (\<exists>x \<in> set (listCapturesForPiece (board st) (sq_r (m_from mv)) (sq_c (m_from mv))
                       (rules st)).
             c_to x = m_to mv \<and> captured lm = Some (c_over x)
             \<and> c_over x \<noteq> m_from mv \<and> c_over x \<noteq> m_to mv
             \<and> enemyAt (board st) side (c_over x)
             \<and> cellAt (board st') (c_over x) = Some 0))
     \<and> (\<not> isCaptureMove (board st) (rules st) mv \<longrightarrow>
          captured lm = None
          \<and> (\<forall>q. q \<noteq> m_from mv \<and> q \<noteq> m_to mv
                 \<longrightarrow> cellAt (board st') q = cellAt (board st) q))
     \<and> cellAt (board st') (m_to mv) =
         Some (if penaltyRemoved lm then 0 else placedPiece piece (sq_r (m_to mv)))
     \<and> (\<forall>q. q \<noteq> m_from mv \<and> q \<noteq> m_to mv \<and> captured lm \<noteq> Some q
            \<longrightarrow> cellAt (board st') q = cellAt (board st) q)"
proof -
  let ?b = "board st"
  let ?caps = "listCapturesForPiece ?b (sq_r (m_from mv)) (sq_c (m_from mv)) (rules st)"
  from assms obtain st' piece where ap: "applyMoveWithRules st mv = Inr st'"
    and p: "cellAt ?b (m_from mv) = Some piece"
    and sg: "sign (Some piece) = side"
    and lm: "lastMove st' = Some \<lparr>lm_from = m_from mv, lm_to = m_to mv,
           captured = map_option c_over (capMatch ?b (rules st) mv),
           penaltyRemoved = penaltyDue st mv\<rparr>"
    and rl: "rules st' = rules st" and wn: "winner st' = winner st"
    by (rule accepted_applies)
  let ?lm = "\<lparr>lm_from = m_from mv, lm_to = m_to mv,
           captured = map_option c_over (capMatch ?b (rules st) mv),
           penaltyRemoved = penaltyDue st mv\<rparr>"
  from accepted_facts(6)[OF assms(2)] have t: "cellAt ?b (m_to mv) \<noteq> None" by simp
  note ne = accepted_facts(8)[OF assms(2)]
  note cells = applyMove_cellAt[OF assms(1) p t ap]
  have wf': "wf_board (board st')" using assms(1) ap by (rule applyMove_wf)
  have f: "cellAt (board st') (m_from mv) = Some 0"
    using cells[of "m_from mv"] ne by simp
  have tt: "cellAt (board st') (m_to mv) =
      Some (if penaltyRemoved ?lm then 0 else placedPiece piece (sq_r (m_to mv)))"
    using cells[of "m_to mv"] by simp
  have oth: "cellAt (board st') q = cellAt ?b q"
    if "q \<noteq> m_from mv" and "q \<noteq> m_to mv" and "captured ?lm \<noteq> Some q" for q
  proof -
    from that(3) have "map_option c_over (capMatch ?b (rules st) mv) \<noteq> Some q"
      by simp
    then have "Some q \<noteq> map_option c_over (capMatch ?b (rules st) mv)"
      by (rule not_sym)
    with that(1,2) cells[of q] show ?thesis by simp
  qed
  have cap: "\<exists>x \<in> set ?caps.
             c_to x = m_to mv \<and> captured ?lm = Some (c_over x)
             \<and> c_over x \<noteq> m_from mv \<and> c_over x \<noteq> m_to mv
             \<and> enemyAt ?b side (c_over x)
             \<and> cellAt (board st') (c_over x) = Some 0"
    if ic: "isCaptureMove ?b (rules st) mv"
  proof -
    from ic obtain x where cm: "capMatch ?b (rules st) mv = Some x"
      using capMatch_None_iff[of ?b "rules st" mv] by auto
    from capMatch_Some[OF cm] have mem: "x \<in> set ?caps" and to: "c_to x = m_to mv"
      by simp_all
    from listCapturesForPiece_sound[OF assms(1) mem]
    have en0: "enemyAt ?b (sign (cellAt ?b (m_from mv))) (c_over x)"
      and fr0: "c_from x = sq (sq_r (m_from mv)) (sq_c (m_from mv))"
      by blast+
    from en0 accepted_facts(5)[OF assms(2)] have en: "enemyAt ?b side (c_over x)"
      by (simp only:)
    from fr0 have fr: "c_from x = m_from mv" by (simp only: sq_surj)
    from capture_squares(4)[OF assms(1) mem] to have n1: "c_over x \<noteq> m_to mv" by simp
    from capture_squares(5)[OF assms(1) mem] fr have n2: "c_over x \<noteq> m_from mv" by simp
    have "cellAt (board st') (c_over x) = Some 0"
      using cells[of "c_over x"] n1 cm by simp
    with mem to cm en n1 n2 show ?thesis by auto
  qed
  have nocap: "captured ?lm = None
          \<and> (\<forall>q. q \<noteq> m_from mv \<and> q \<noteq> m_to mv
                 \<longrightarrow> cellAt (board st') q = cellAt ?b q)"
    if nc: "\<not> isCaptureMove ?b (rules st) mv"
  proof -
    from nc have "capMatch ?b (rules st) mv = None" by (simp add: capMatch_None_iff)
    then have c: "captured ?lm = None" by simp
    with oth show ?thesis by simp
  qed
  from ap lm p rl wn wf' f tt oth cap nocap show ?thesis
    by (intro exI[of _ st'] exI[of _ ?lm] exI[of _ piece]) blast
qed

theorem applyMove_frame_witness:
  "wf_board (board manState) \<and> accepted manState 1 takeMove
   \<and> isCaptureMove (board manState) (rules manState) takeMove
   \<and> cellAt (board manState) (sq 2 3) = Some (- 1)
   \<and> (\<exists>st' lm. applyMoveWithRules manState takeMove = Inr st' \<and> lastMove st' = Some lm
        \<and> rules st' = rules manState \<and> winner st' = winner manState
        \<and> captured lm = Some (sq 2 3)
        \<and> cellAt (board st') (sq 3 4) = Some 0
        \<and> cellAt (board st') (sq 2 3) = Some 0
        \<and> cellAt (board st') (sq 4 5) = Some (- 1))"
proof -
  have wf: "wf_board (board manState)" by code_simp
  have a: "accepted manState 1 takeMove" by code_simp
  have ic: "isCaptureMove (board manState) (rules manState) takeMove" by code_simp
  have f: "m_from takeMove = sq 3 4" and t: "m_to takeMove = sq 1 2"
    by (simp_all add: takeMove_def)
  have j: "cellAt (board manState) (sq 2 3) = Some (- 1)" by code_simp
  have c: "cellAt (board manState) (sq 4 5) = Some (- 1)" by code_simp
  have l: "listCapturesForPiece (board manState) (sq_r (m_from takeMove))
      (sq_c (m_from takeMove)) (rules manState)
      = [\<lparr>c_from = sq 3 4, c_over = sq 2 3, c_to = sq 1 2\<rparr>]" by code_simp
  from applyMove_frame[OF wf a] obtain st' lm where
    ap: "applyMoveWithRules manState takeMove = Inr st'" and lm: "lastMove st' = Some lm"
    and rl: "rules st' = rules manState" and wn: "winner st' = winner manState"
    and fr: "cellAt (board st') (m_from takeMove) = Some 0"
    and cap: "isCaptureMove (board manState) (rules manState) takeMove \<longrightarrow>
          (\<exists>x \<in> set (listCapturesForPiece (board manState) (sq_r (m_from takeMove))
                       (sq_c (m_from takeMove)) (rules manState)).
             c_to x = m_to takeMove \<and> captured lm = Some (c_over x)
             \<and> c_over x \<noteq> m_from takeMove \<and> c_over x \<noteq> m_to takeMove
             \<and> enemyAt (board manState) 1 (c_over x)
             \<and> cellAt (board st') (c_over x) = Some 0)"
    and oth: "\<forall>q. q \<noteq> m_from takeMove \<and> q \<noteq> m_to takeMove \<and> captured lm \<noteq> Some q
            \<longrightarrow> cellAt (board st') q = cellAt (board manState) q"
    by blast
  from cap ic l have cl: "captured lm = Some (sq 2 3)"
    and cj: "cellAt (board st') (sq 2 3) = Some 0" by auto
  from oth[rule_format, of "sq 4 5"] f t c cl
  have c': "cellAt (board st') (sq 4 5) = Some (- 1)" by simp
  from fr f have f': "cellAt (board st') (sq 3 4) = Some 0" by simp
  from wf a ic j ap lm rl wn cl f' cj c' show ?thesis by blast
qed

section \<open>The stored rules\<close>

text \<open>
  C10. The rules of the initial state are well formed, and so are the rules of the state of
  the room after every sequence of messages from the start of the server: each of the five
  flags is a boolean and \<open>multiCapture\<close> is ''optional'' or ''forced''. An
  \<open>updateRules\<close> request that returns either comes from the White seat, and then it
  stores and emits the state with a rules record built from the payload alone (each flag the
  truthiness of the property of its name, \<open>multiCapture\<close> ''forced'' when the property is
  that string and ''optional'' for every other value), or it leaves the room as it is and
  emits nothing.
\<close>

theorem rules_wellformed:
  "rulesOK (rules createInitialState)
   \<and> (run evs = Some rm \<longrightarrow> rulesOK (rules (state rm)))
   \<and> (updateRules (Some rm0) sid v = Inr (rooms', em) \<longrightarrow>
        (if roleOf rm0 sid = RoleWhite
         then \<exists>st'. rooms' = Some (rm0\<lparr>state := st'\<rparr>) \<and> em = Some st'
                \<and> st' = (state rm0)\<lparr>rules :=
                    \<lparr>mustCapture = truthy (getProp v ''mustCapture''),
                     skipCapturePenaltyRemoveMoved =
                       truthy (getProp v ''skipCapturePenaltyRemoveMoved''),
                     multiCapture =
                       (if getProp v ''multiCapture'' = JStr ''forced''
                        then ''forced'' else ''optional''),
                     flyingKingMove = truthy (getProp v ''flyingKingMove''),
                     flyingKingCapture = truthy (getProp v ''flyingKingCapture''),
                     menBackwardCapture = truthy (getProp v ''menBackwardCapture'')\<rparr>\<rparr>
                \<and> rulesOK (rules st')
         else rooms' = Some rm0 \<and> em = None))"
proof (intro conjI)
  show "rulesOK (rules createInitialState)"
    using stateOK_initial by (simp add: stateOK_def)
  show "run evs = Some rm \<longrightarrow> rulesOK (rules (state rm))"
    using run_stateOK[of evs rm] by (simp add: stateOK_def)
  show "updateRules (Some rm0) sid v = Inr (rooms', em) \<longrightarrow>
        (if roleOf rm0 sid = RoleWhite
         then \<exists>st'. rooms' = Some (rm0\<lparr>state := st'\<rparr>) \<and> em = Some st'
                \<and> st' = (state rm0)\<lparr>rules :=
                    \<lparr>mustCapture = truthy (getProp v ''mustCapture''),
                     skipCapturePenaltyRemoveMoved =
                       truthy (getProp v ''skipCapturePenaltyRemoveMoved''),
                     multiCapture =
                       (if getProp v ''multiCapture'' = JStr ''forced''
                        then ''forced'' else ''optional''),
                     flyingKingMove = truthy (getProp v ''flyingKingMove''),
                     flyingKingCapture = truthy (getProp v ''flyingKingCapture''),
                     menBackwardCapture = truthy (getProp v ''menBackwardCapture'')\<rparr>\<rparr>
                \<and> rulesOK (rules st')
         else rooms' = Some rm0 \<and> em = None)"
    by (auto simp add: updateRules_def Let_def rulesOK_def split: if_splits)
qed

theorem rules_wellformed_witness:
  "run demoEvents = Some updatedRoom
   \<and> rulesOK (rules (state updatedRoom))
   \<and> updateRules (Some joinedRoom) ''w'' demoPayload
       = Inr (Some updatedRoom, Some (state updatedRoom))
   \<and> roleOf joinedRoom ''w'' = RoleWhite
   \<and> multiCapture (rules (state updatedRoom)) = ''optional''"
proof -
  have r: "run demoEvents = Some updatedRoom" by code_simp
  have u: "updateRules (Some joinedRoom) ''w'' demoPayload
       = Inr (Some updatedRoom, Some (state updatedRoom))" by code_simp
  have w: "roleOf joinedRoom ''w'' = RoleWhite" by code_simp
  have m: "getProp demoPayload ''multiCapture'' \<noteq> JStr ''forced''" by code_simp
  note th = rules_wellformed[of demoEvents updatedRoom joinedRoom "''w''" demoPayload
      "Some updatedRoom" "Some (state updatedRoom)"]
  from th r have ok: "rulesOK (rules (state updatedRoom))" by blast
  from th u w m have "multiCapture (rules (state updatedRoom)) = ''optional''"
    by auto
  with r ok u w show ?thesis by blast
qed

end
